theory Spec2Isabelle
  imports Complex_Main "HOL-Library.Stream" "HOL-Library.Sublist"
begin

section \<open>The C library functions the front end calls\<close>

text \<open>
  \<^verbatim>\<open>machine-control.c\<close> converts text to numbers with \<^verbatim>\<open>strtod\<close>, \<^verbatim>\<open>atof\<close> and
  \<^verbatim>\<open>atoi\<close>, and sizes every per-axis array with \<^verbatim>\<open>GCODE_NUM_AXES\<close>, which is declared in
  \<^verbatim>\<open>gcode-parser.h\<close>. None of the four is defined in \<^verbatim>\<open>machine-control.c\<close>, so the
  model takes them as the fields of a record, and every general theorem below holds for
  each value of that record.

  A C string is a \<open>string\<close> without its terminating NUL: the terminator is the end of the
  list. \<^verbatim>\<open>strtod(input, &end)\<close> is a function from the string at \<^verbatim>\<open>input\<close> to the value it
  returns and the number \<^verbatim>\<open>end - input\<close> of characters it has consumed; that number is 0
  exactly when C has \<^verbatim>\<open>end == input\<close>. A \<^verbatim>\<open>float\<close> is an ideal real number: the rounding
  of the conversions is not modelled.
\<close>

type_synonym cfloat = real

record platform =
  GCODE_NUM_AXES :: nat
  strtod :: "string \<Rightarrow> cfloat \<times> nat"
  atof :: "string \<Rightarrow> cfloat"
  atoi :: "string \<Rightarrow> int"

subsection \<open>A decimal \<^verbatim>\<open>strtod\<close> and \<^verbatim>\<open>atoi\<close>\<close>

text \<open>
  The concrete inputs of this development are evaluated with the decimal forms of the C
  standard's \<^verbatim>\<open>strtod\<close> and \<^verbatim>\<open>atoi\<close> in the "C" locale: optional white space, an optional
  sign, a nonempty sequence of decimal digits that may contain one radix point, and for
  \<^verbatim>\<open>strtod\<close> an optional exponent part. When no conversion can be performed the value is
  zero and nothing is consumed. The hexadecimal, \<^verbatim>\<open>INF\<close> and \<^verbatim>\<open>NAN\<close> forms of \<^verbatim>\<open>strtod\<close>
  and the overflow of \<^verbatim>\<open>atoi\<close> are left out; no concrete input below uses them.
\<close>

definition isspace :: "char \<Rightarrow> bool" where
  "isspace c = (c \<in> set [CHR '' '', CHR 0x09, CHR 0x0A, CHR 0x0B, CHR 0x0C, CHR 0x0D])"

definition isdigit :: "char \<Rightarrow> bool" where
  "isdigit c = (c \<in> set ''0123456789'')"

definition digit_val :: "char \<Rightarrow> nat" where
  "digit_val c = of_char c - 48"

definition digits_val :: "string \<Rightarrow> nat" where
  "digits_val ds = foldl (\<lambda>a c. 10 * a + digit_val c) 0 ds"

definition scan_sign :: "string \<Rightarrow> bool \<times> nat" where
  "scan_sign s =
     (case s of
        [] \<Rightarrow> (False, 0)
      | c # _ \<Rightarrow> if c = CHR ''-'' then (True, 1) else if c = CHR ''+'' then (False, 1)
                 else (False, 0))"

definition scan_exponent :: "string \<Rightarrow> int \<times> nat" where
  "scan_exponent s =
     (case s of
        [] \<Rightarrow> (0, 0)
      | c # r \<Rightarrow>
          if c = CHR ''e'' \<or> c = CHR ''E'' then
            (let (neg, n) = scan_sign r;
                 ds = takeWhile isdigit (drop n r);
                 e = int (digits_val ds)
             in if ds = [] then (0, 0)
                else (if neg then - e else e, 1 + n + length ds))
          else (0, 0))"

definition scale10 :: "real \<Rightarrow> int \<Rightarrow> real" where
  "scale10 x e = (if 0 \<le> e then x * 10 ^ nat e else x / 10 ^ nat (- e))"

definition strtod_decimal :: "string \<Rightarrow> cfloat \<times> nat" where
  "strtod_decimal s =
     (let s0 = dropWhile isspace s;
          (neg, n) = scan_sign s0;
          s1 = drop n s0;
          ip = takeWhile isdigit s1;
          s2 = dropWhile isdigit s1;
          has_point = (s2 \<noteq> [] \<and> hd s2 = CHR ''.'');
          fp = (if has_point then takeWhile isdigit (tl s2) else []);
          s3 = (if has_point then dropWhile isdigit (tl s2) else s2)
      in if ip = [] \<and> fp = [] then (0, 0)
         else
           (let (e, ne) = scan_exponent s3;
                v = scale10 (real (digits_val (ip @ fp))) (e - int (length fp))
            in (if neg then - v else v, length s - length s3 + ne)))"

definition atoi_decimal :: "string \<Rightarrow> int" where
  "atoi_decimal s =
     (let s0 = dropWhile isspace s;
          (neg, n) = scan_sign s0;
          v = int (digits_val (takeWhile isdigit (drop n s0)))
      in if neg then - v else v)"

definition libc :: "nat \<Rightarrow> platform" where
  "libc n = \<lparr>GCODE_NUM_AXES = n, strtod = strtod_decimal,
             atof = (\<lambda>s. fst (strtod_decimal s)), atoi = atoi_decimal\<rparr>"

section \<open>\<^verbatim>\<open>parse_float_array\<close>\<close>

text \<open>
  \<^verbatim>\<open>
  static int parse_float_array(const char *input, float result[], int count) {
    for (int i = 0; i < count; ++i) {
      char *end;
      result[i] = strtod(input, &end);
      if (end == input) return 0;  // parse error.
      if (*end == '\0') return i + 1;
      input = end + 1;
    }
    return count;
  }
  \<close>
  The loop is a recursion on \<open>i\<close>; it returns the C return value together with the
  array. The store \<^verbatim>\<open>result[i] = ...\<close> happens before the two tests, as in the source.
  \<^verbatim>\<open>*end == '\0'\<close> says that nothing is left after the consumed characters. In C the
  array must have at least \<^verbatim>\<open>count\<close> elements (every caller passes an array of
  \<^verbatim>\<open>GCODE_NUM_AXES\<close> elements and \<^verbatim>\<open>count = GCODE_NUM_AXES\<close>); the theorems about the
  contents of the array assume it.
\<close>

function parse_float_array_loop ::
  "platform \<Rightarrow> string \<Rightarrow> cfloat list \<Rightarrow> int \<Rightarrow> nat \<Rightarrow> int \<times> cfloat list" where
  "parse_float_array_loop p input result count i =
     (if int i < count then
        (let (v, n) = strtod p input;
             result' = result[i := v]
         in if n = 0 then (0, result')
            else if drop n input = [] then (int i + 1, result')
            else parse_float_array_loop p (drop (n + 1) input) result' count (i + 1))
      else (count, result))"
  by pat_completeness auto
termination
  by (relation "measure (\<lambda>(p, input, result, count, i). nat (count - int i))") auto

definition parse_float_array :: "platform \<Rightarrow> string \<Rightarrow> cfloat list \<Rightarrow> int \<Rightarrow> int \<times> cfloat list" where
  "parse_float_array p input result count = parse_float_array_loop p input result count 0"

section \<open>The configuration record\<close>

text \<open>
  Modelled from the spec: \<^verbatim>\<open>enum HomeType\<close> and \<^verbatim>\<open>struct MachineControlConfig\<close> are
  declared in \<^verbatim>\<open>gcode-machine-control.h\<close>. The spec gives the fields and
  \<open>HomeType \<in> {NONE, ORIGIN, END_OF_RANGE}\<close>; the usage text of \<^verbatim>\<open>machine-control.c\<close>
  numbers them 0, 1 and 2. A cast from \<^verbatim>\<open>float\<close> can produce any integer, so a home
  switch is an \<open>int\<close>.
\<close>

type_synonym HomeType = int

definition HOME_POS_NONE :: HomeType where
  "HOME_POS_NONE = 0"

definition HOME_POS_ORIGIN :: HomeType where
  "HOME_POS_ORIGIN = 1"

definition HOME_POS_END_OF_RANGE :: HomeType where
  "HOME_POS_END_OF_RANGE = 2"

record MachineControlConfig =
  steps_per_mm :: "cfloat list"
  max_feedrate :: "cfloat list"
  acceleration :: "cfloat list"
  move_range_mm :: "cfloat list"
  home_switch :: "HomeType list"
  axis_mapping :: string
  channel_layout :: string
  speed_factor :: cfloat
  dry_run :: bool
  debug_print :: bool
  synchronous :: bool

text \<open>
  The compiled-in defaults. Each table is declared with \<^verbatim>\<open>GCODE_NUM_AXES\<close> elements and
  seven initialisers; C fills the elements without an initialiser with zero.
\<close>

definition c_array :: "nat \<Rightarrow> 'a::zero list \<Rightarrow> 'a list" where
  "c_array n xs = take n xs @ replicate (n - length xs) 0"

definition kMaxFeedrate :: "cfloat list" where
  "kMaxFeedrate = [200, 200, 90, 10, 1, 0, 0]"

definition kDefaultAccel :: "cfloat list" where
  "kDefaultAccel = [4000, 4000, 1000, 10000, 1, 0, 0]"

definition kStepsPerMM :: "cfloat list" where
  "kStepsPerMM = [160, 160, 160, 40, 1, 0, 0]"

definition kHomePos :: "HomeType list" where
  "kHomePos = [HOME_POS_ORIGIN, HOME_POS_ORIGIN, HOME_POS_ORIGIN,
               HOME_POS_NONE, HOME_POS_NONE, HOME_POS_NONE, HOME_POS_NONE]"

definition kMoveRange :: "cfloat list" where
  "kMoveRange = [100, 100, 100, -1, -1, -1, -1]"

definition kChannelLayout :: string where
  "kChannelLayout = ''23140''"

definition kAxisMapping :: string where
  "kAxisMapping = ''XYZEA''"

definition default_config :: "platform \<Rightarrow> MachineControlConfig" where
  "default_config p =
     \<lparr>steps_per_mm = c_array (GCODE_NUM_AXES p) kStepsPerMM,
      max_feedrate = c_array (GCODE_NUM_AXES p) kMaxFeedrate,
      acceleration = c_array (GCODE_NUM_AXES p) kDefaultAccel,
      move_range_mm = c_array (GCODE_NUM_AXES p) kMoveRange,
      home_switch = c_array (GCODE_NUM_AXES p) kHomePos,
      axis_mapping = kAxisMapping,
      channel_layout = kChannelLayout,
      speed_factor = 1,
      dry_run = False,
      debug_print = False,
      synchronous = False\<rparr>"

section \<open>The operating system and the engine\<close>

text \<open>
  Everything \<^verbatim>\<open>main\<close> does to the outside is an event, and everything the outside
  answers comes from the \<open>world\<close>: one answer for the calls made once, a stream of answers
  for the calls made in a loop, consumed in call order. \<^verbatim>\<open>gcode_machine_control_init\<close>,
  \<^verbatim>\<open>gcode_machine_control_from_stream\<close> and \<^verbatim>\<open>gcode_machine_control_exit\<close> are the engine;
  the spec says of it only that it reports a status, 0 for success. Format strings are
  recorded without their final newline and with their integer arguments.
\<close>

datatype event =
    Usage string
  | Fprintf_stderr string "int list"
  | Perror string
  | Printf string
  | Engine_init MachineControlConfig
  | Engine_exit
  | Open string int
  | From_stream int int int
  | Socket int
  | Setsockopt int
  | Bind int int int
  | Signal_ignore_SIGPIPE
  | Listen int int
  | Accept int int
  | Close int

record world =
  init_result :: int
  open_results :: "int stream"
  stream_results :: "int stream"
  socket_result :: int
  inet_pton_result :: "string \<Rightarrow> int"
  bind_result :: int
  accept_results :: "int stream"
  events :: "event list"

definition emit :: "event \<Rightarrow> world \<Rightarrow> world" where
  "emit e w = w\<lparr>events := events w @ [e]\<rparr>"

definition STDERR_FILENO :: int where
  "STDERR_FILENO = 2"

definition usage :: "string \<Rightarrow> world \<Rightarrow> int option \<times> world" where
  "usage msg w = (Some 1, emit (Usage msg) w)"

definition gcode_machine_control_init :: "MachineControlConfig \<Rightarrow> world \<Rightarrow> int \<times> world" where
  "gcode_machine_control_init config w = (init_result w, emit (Engine_init config) w)"

definition gcode_machine_control_from_stream :: "int \<Rightarrow> int \<Rightarrow> world \<Rightarrow> int \<times> world" where
  "gcode_machine_control_from_stream gcode_fd output_fd w =
     (let r = shd (stream_results w)
      in (r, emit (From_stream gcode_fd output_fd r) (w\<lparr>stream_results := stl (stream_results w)\<rparr>)))"

definition c_open :: "string \<Rightarrow> world \<Rightarrow> int \<times> world" where
  "c_open filename w =
     (let fd = shd (open_results w)
      in (fd, emit (Open filename fd) (w\<lparr>open_results := stl (open_results w)\<rparr>)))"

definition c_accept :: "int \<Rightarrow> world \<Rightarrow> int \<times> world" where
  "c_accept s w =
     (let connection = shd (accept_results w)
      in (connection, emit (Accept s connection) (w\<lparr>accept_results := stl (accept_results w)\<rparr>)))"

section \<open>\<^verbatim>\<open>send_file_to_machine\<close>\<close>

text \<open>
  \<^verbatim>\<open>
  static int send_file_to_machine(const char *gcode_filename, char do_loop) {
    do {
      int fd = open(gcode_filename, O_RDONLY);
      if (gcode_machine_control_from_stream(fd, STDERR_FILENO) != 0)
        return 1;
    } while (do_loop);
    return 0;
  }
  \<close>
  The loop may run forever, so the model counts the iterations it is given: the result is
  \<open>Some r\<close> when the function returns \<open>r\<close> within \<open>fuel\<close> iterations and \<open>None\<close> when it
  is still running after them; the world holds the events up to that moment.
\<close>

fun send_file_to_machine :: "nat \<Rightarrow> string \<Rightarrow> bool \<Rightarrow> world \<Rightarrow> int option \<times> world" where
  "send_file_to_machine 0 gcode_filename do_loop w = (None, w)"
| "send_file_to_machine (Suc fuel) gcode_filename do_loop w =
     (let (fd, w1) = c_open gcode_filename w;
          (r, w2) = gcode_machine_control_from_stream fd STDERR_FILENO w1
      in if r \<noteq> 0 then (Some 1, w2)
         else if do_loop then send_file_to_machine fuel gcode_filename do_loop w2
         else (Some 0, w2))"

section \<open>\<^verbatim>\<open>run_server\<close>\<close>

text \<open>
  The \<^verbatim>\<open>do ... while (process_result == 0)\<close> loop of \<^verbatim>\<open>run_server\<close> (lines 155 to 170)
  either returns 1 from inside, when \<^verbatim>\<open>accept\<close> fails, or is left with the non-zero
  \<^verbatim>\<open>process_result\<close>. As above, \<open>None\<close> says that it is still running after \<open>fuel\<close>
  iterations.
\<close>

datatype loop_exit = Returned int | Left_loop int

fun server_loop :: "nat \<Rightarrow> int \<Rightarrow> world \<Rightarrow> loop_exit option \<times> world" where
  "server_loop 0 s w = (None, w)"
| "server_loop (Suc fuel) s w =
     (let (connection, w1) = c_accept s w
      in if connection < 0 then (Some (Returned 1), emit (Perror ''accept'') w1)
         else
           (let w2 = emit (Printf ''Accepting new connection from %s'') w1;
                (process_result, w3) = gcode_machine_control_from_stream connection connection w2;
                w4 = emit (Printf ''Connection to %s closed.'') w3
            in if process_result = 0 then server_loop fuel s w4
               else (Some (Left_loop process_result), w4)))"

text \<open>
  Lines 155 to 175 of \<^verbatim>\<open>run_server\<close>: the loop and, once it is left, \<^verbatim>\<open>close(s)\<close>, the
  log line and \<^verbatim>\<open>return 0\<close>.
\<close>

definition serve_connections :: "nat \<Rightarrow> int \<Rightarrow> world \<Rightarrow> int option \<times> world" where
  "serve_connections fuel s w =
     (case server_loop fuel s w of
        (None, w') \<Rightarrow> (None, w')
      | (Some (Returned r), w') \<Rightarrow> (Some r, w')
      | (Some (Left_loop process_result), w') \<Rightarrow>
          (Some 0,
           emit (Fprintf_stderr ''Last gcode_machine_control_from_stream() == %d. Exiting''
                   [process_result])
             (emit (Close s) w')))"

text \<open>Lines 123 to 153: the port check, the socket, the bind address, \<^verbatim>\<open>bind\<close>, \<^verbatim>\<open>listen\<close>.\<close>

definition run_server :: "nat \<Rightarrow> string option \<Rightarrow> int \<Rightarrow> world \<Rightarrow> int option \<times> world" where
  "run_server fuel bind_addr port w =
     (if port > 65535 then (Some 1, emit (Fprintf_stderr ''Invalid port %d'' [port]) w)
      else
        (let s = socket_result w;
             w1 = emit (Socket s) w
         in if s < 0 then (Some 1, emit (Perror ''creating socket'') w1)
            else if (case bind_addr of None \<Rightarrow> False | Some a \<Rightarrow> inet_pton_result w1 a = 0)
            then (Some 1, emit (Fprintf_stderr ''Invalid bind IP address %s'' []) w1)
            else
              (let w2 = emit (Setsockopt s) w1;
                   w3 = emit (Bind s port (bind_result w2)) w2
               in if bind_result w3 < 0 then (Some 1, emit (Perror ''trouble binding'') w3)
                  else
                    (let w4 = emit Signal_ignore_SIGPIPE w3;
                         w5 = emit (Listen s 2) w4;
                         w6 = emit (Printf ''Listening on %s:%d'') w5
                     in serve_connections fuel s w6))))"

section \<open>\<^verbatim>\<open>main\<close>\<close>

text \<open>
  \<^verbatim>\<open>getopt_long\<close> belongs to the C library too. \<^verbatim>\<open>main\<close> reads it through the values it
  returns, one per loop iteration, each with its \<^verbatim>\<open>optarg\<close>, and through \<^verbatim>\<open>optind\<close> at the
  end; the model takes that sequence of options and the positional arguments
  \<^verbatim>\<open>argv[optind .. argc - 1]\<close> as the inputs of \<^verbatim>\<open>main\<close>. \<open>Opt_other\<close> is every return
  value that reaches the \<^verbatim>\<open>default:\<close> branch.
\<close>

datatype getopt =
    Opt_f string
  | Opt_m string
  | Opt_a string
  | SET_STEPS_MM string
  | SET_MOTOR_MAPPING string
  | SET_HOME_POS string
  | Opt_r string
  | Opt_n
  | Opt_P
  | Opt_S
  | Opt_R
  | Opt_p string
  | Opt_b string
  | Opt_other

text \<open>The local variables of \<^verbatim>\<open>main\<close> that the option loop assigns.\<close>

record flags =
  config :: MachineControlConfig
  listen_port :: int
  do_file_repeat :: bool
  bind_addr :: "string option"

definition initial_flags :: "platform \<Rightarrow> flags" where
  "initial_flags p =
     \<lparr>config = default_config p, listen_port = - 1, do_file_repeat = False, bind_addr = None\<rparr>"

text \<open>The cast \<^verbatim>\<open>(enum HomeType) tmp[i]\<close> of a \<^verbatim>\<open>float\<close> discards the fractional part.\<close>

definition float_to_HomeType :: "cfloat \<Rightarrow> HomeType" where
  "float_to_HomeType x = (if 0 \<le> x then \<lfloor>x\<rfloor> else \<lceil>x\<rceil>)"

text \<open>
  One iteration of the \<^verbatim>\<open>switch\<close> (lines 232 to 289): \<open>Inl msg\<close> is
  \<^verbatim>\<open>return usage(argv[0], msg)\<close>, \<open>Inr\<close> is \<^verbatim>\<open>break\<close> with the variables as assigned.
\<close>

fun handle_option :: "platform \<Rightarrow> getopt \<Rightarrow> flags \<Rightarrow> string + flags" where
  "handle_option p (Opt_f optarg) fs =
     (let fs' = fs\<lparr>config := (config fs)\<lparr>speed_factor := atof p optarg\<rparr>\<rparr>
      in if speed_factor (config fs') \<le> 0 then Inl ''Speedfactor cannot be <= 0''
         else Inr fs')"
| "handle_option p (Opt_m optarg) fs =
     (let (parse_count, a) =
            parse_float_array p optarg (max_feedrate (config fs)) (int (GCODE_NUM_AXES p))
      in if parse_count = 0 then Inl ''max-feedrate missing.''
         else Inr (fs\<lparr>config := (config fs)\<lparr>max_feedrate := a\<rparr>\<rparr>))"
| "handle_option p (Opt_a optarg) fs =
     (let (parse_count, a) =
            parse_float_array p optarg (acceleration (config fs)) (int (GCODE_NUM_AXES p))
      in if parse_count = 0 then Inl ''Acceleration missing.''
         else Inr (fs\<lparr>config := (config fs)\<lparr>acceleration := a\<rparr>\<rparr>))"
| "handle_option p (SET_STEPS_MM optarg) fs =
     (let (parse_count, a) =
            parse_float_array p optarg (steps_per_mm (config fs)) (int (GCODE_NUM_AXES p))
      in if parse_count = 0 then Inl ''steps/mm failed to parse.''
         else Inr (fs\<lparr>config := (config fs)\<lparr>steps_per_mm := a\<rparr>\<rparr>))"
| "handle_option p (SET_MOTOR_MAPPING optarg) fs =
     Inr (fs\<lparr>config := (config fs)\<lparr>axis_mapping := optarg\<rparr>\<rparr>)"
| "handle_option p (SET_HOME_POS optarg) fs =
     (let tmp = replicate (GCODE_NUM_AXES p) 0;
          (parse_count, tmp') = parse_float_array p optarg tmp (int (GCODE_NUM_AXES p))
      in if parse_count = 0 then Inl ''Failed to parse home switch.''
         else Inr (fs\<lparr>config := (config fs)
                    \<lparr>home_switch :=
                       map (\<lambda>i. float_to_HomeType (tmp' ! i)) [0 ..< GCODE_NUM_AXES p]\<rparr>\<rparr>))"
| "handle_option p (Opt_r optarg) fs =
     (let (parse_count, a) =
            parse_float_array p optarg (move_range_mm (config fs)) (int (GCODE_NUM_AXES p))
      in if parse_count = 0 then Inl ''Failed to parse ranges.''
         else Inr (fs\<lparr>config := (config fs)\<lparr>move_range_mm := a\<rparr>\<rparr>))"
| "handle_option p Opt_n fs = Inr (fs\<lparr>config := (config fs)\<lparr>dry_run := True\<rparr>\<rparr>)"
| "handle_option p Opt_P fs = Inr (fs\<lparr>config := (config fs)\<lparr>debug_print := True\<rparr>\<rparr>)"
| "handle_option p Opt_S fs = Inr (fs\<lparr>config := (config fs)\<lparr>synchronous := True\<rparr>\<rparr>)"
| "handle_option p Opt_R fs = Inr (fs\<lparr>do_file_repeat := True\<rparr>)"
| "handle_option p (Opt_p optarg) fs = Inr (fs\<lparr>listen_port := atoi p optarg\<rparr>)"
| "handle_option p (Opt_b optarg) fs = Inr (fs\<lparr>bind_addr := Some optarg\<rparr>)"
| "handle_option p Opt_other fs = Inl ''Unknown flag''"

text \<open>The \<^verbatim>\<open>while ((opt = getopt_long(...)) != -1)\<close> loop (lines 230 to 290).\<close>

fun process_flags :: "platform \<Rightarrow> getopt list \<Rightarrow> flags \<Rightarrow> string + flags" where
  "process_flags p [] fs = Inr fs"
| "process_flags p (opt # opts) fs =
     (case handle_option p opt fs of
        Inl msg \<Rightarrow> Inl msg
      | Inr fs' \<Rightarrow> process_flags p opts fs')"

text \<open>
  \<^verbatim>\<open>main\<close> from line 292 on. \<^verbatim>\<open>has_filename\<close> and \<^verbatim>\<open>listen_port > 0\<close> are both 0 or 1 in C,
  so \<^verbatim>\<open>!(has_filename ^ (listen_port > 0))\<close> says that the two are equal. The result is
  the exit code, or \<open>None\<close> while the chosen runner is still in its loop. \<open>main_exit\<close> is
  lines 312 to 314: once the runner has returned, \<^verbatim>\<open>gcode_machine_control_exit()\<close> and
  \<^verbatim>\<open>return ret\<close>.
\<close>

definition main_exit :: "int option \<times> world \<Rightarrow> int option \<times> world" where
  "main_exit rw =
     (case rw of
        (None, w) \<Rightarrow> (None, w)
      | (Some ret, w) \<Rightarrow> (Some ret, emit Engine_exit w))"

definition main :: "platform \<Rightarrow> nat \<Rightarrow> getopt list \<Rightarrow> string list \<Rightarrow> world \<Rightarrow> int option \<times> world" where
  "main p fuel opts args w =
     (case process_flags p opts (initial_flags p) of
        Inl msg \<Rightarrow> usage msg w
      | Inr fs \<Rightarrow>
          (let has_filename = (args \<noteq> [])
           in if \<not> (has_filename \<noteq> (listen_port fs > 0))
              then usage ''Choose one: <gcode-filename> or --port <port>.'' w
              else if \<not> has_filename \<and> do_file_repeat fs
              then usage ''-R (repeat) only makes sense with a filename.'' w
              else
                (let (r, w1) = gcode_machine_control_init (config fs) w
                 in if r \<noteq> 0 then (Some 1, w1)
                    else if has_filename
                    then main_exit (send_file_to_machine fuel (hd args) (do_file_repeat fs) w1)
                    else main_exit (run_server fuel (bind_addr fs) (listen_port fs) w1))))"

section \<open>The vocabulary of the properties\<close>

subsection \<open>Token lists\<close>

text \<open>
  A list of numbers as \<^verbatim>\<open>parse_float_array\<close> reads it: tokens, each followed by one
  delimiter character, and then the rest of the string. A token is well formed where it
  stands when \<^verbatim>\<open>strtod\<close>, applied to the string from the token on, consumes exactly the
  token: the token is the longest numeric prefix, and its delimiter really ends it.
\<close>

fun joined :: "(string \<times> char) list \<Rightarrow> string \<Rightarrow> string" where
  "joined [] rest = rest"
| "joined ((t, d) # ts) rest = t @ d # joined ts rest"

fun leading_tokens :: "platform \<Rightarrow> (string \<times> char) list \<Rightarrow> string \<Rightarrow> bool" where
  "leading_tokens p [] rest = True"
| "leading_tokens p ((t, d) # ts) rest =
     (t \<noteq> [] \<and> snd (strtod p (t @ d # joined ts rest)) = length t \<and> leading_tokens p ts rest)"

fun token_values :: "platform \<Rightarrow> (string \<times> char) list \<Rightarrow> string \<Rightarrow> cfloat list" where
  "token_values p [] rest = []"
| "token_values p ((t, d) # ts) rest =
     fst (strtod p (t @ d # joined ts rest)) # token_values p ts rest"

subsection \<open>Worlds and what happens in them\<close>

text \<open>
  A world in which nothing has happened yet, the engine initialises, and \<^verbatim>\<open>socket\<close>,
  \<^verbatim>\<open>inet_pton\<close> and \<^verbatim>\<open>bind\<close> succeed; \<^verbatim>\<open>open\<close>, the engine's stream processing and
  \<^verbatim>\<open>accept\<close> answer with the three streams.
\<close>

definition world_of :: "int stream \<Rightarrow> int stream \<Rightarrow> int stream \<Rightarrow> world" where
  "world_of fds rs cs =
     \<lparr>init_result = 0, open_results = fds, stream_results = rs, socket_result = 3,
      inet_pton_result = (\<lambda>a. 1), bind_result = 0, accept_results = cs, events = []\<rparr>"

text \<open>The number of calls of \<^verbatim>\<open>gcode_machine_control_from_stream\<close> so far.\<close>

definition engine_calls :: "world \<Rightarrow> nat" where
  "engine_calls w =
     length (filter (\<lambda>e. case e of From_stream _ _ _ \<Rightarrow> True | _ \<Rightarrow> False) (events w))"

text \<open>
  \<open>n\<close> rounds of file playback: each opens the file and hands the descriptor to the engine
  with \<^verbatim>\<open>STDERR_FILENO\<close>. \<open>after_playback\<close> is the world after them: the answers are
  used up and the events are recorded.
\<close>

fun playback_events :: "string \<Rightarrow> int stream \<Rightarrow> int stream \<Rightarrow> nat \<Rightarrow> event list" where
  "playback_events fn fds rs 0 = []"
| "playback_events fn fds rs (Suc n) =
     Open fn (shd fds) # From_stream (shd fds) STDERR_FILENO (shd rs) #
     playback_events fn (stl fds) (stl rs) n"

definition after_playback :: "string \<Rightarrow> nat \<Rightarrow> world \<Rightarrow> world" where
  "after_playback fn n w =
     w\<lparr>open_results := sdrop n (open_results w),
       stream_results := sdrop n (stream_results w),
       events := events w @ playback_events fn (open_results w) (stream_results w) n\<rparr>"

text \<open>
  \<open>n\<close> sessions of the server loop on the listening socket \<open>s\<close>: each accepts one
  connection and hands it to the engine as input and output. \<open>after_sessions\<close> is the
  world after them.
\<close>

fun session_events :: "int \<Rightarrow> int stream \<Rightarrow> int stream \<Rightarrow> nat \<Rightarrow> event list" where
  "session_events s cs rs 0 = []"
| "session_events s cs rs (Suc n) =
     Accept s (shd cs) # Printf ''Accepting new connection from %s'' #
     From_stream (shd cs) (shd cs) (shd rs) # Printf ''Connection to %s closed.'' #
     session_events s (stl cs) (stl rs) n"

definition after_sessions :: "int \<Rightarrow> nat \<Rightarrow> world \<Rightarrow> world" where
  "after_sessions s n w =
     w\<lparr>accept_results := sdrop n (accept_results w),
       stream_results := sdrop n (stream_results w),
       events := events w @ session_events s (accept_results w) (stream_results w) n\<rparr>"

text \<open>
  Serving one connection at a time, as a property of the sequence of events: \<open>cur\<close> is the
  connection in service. \<^verbatim>\<open>accept\<close> is called only when no connection is in service, and a
  successful one puts its connection in service; the engine is called only with the
  connection in service, for both directions, and its return ends the service.
\<close>

fun one_at_a_time :: "int option \<Rightarrow> event list \<Rightarrow> bool" where
  "one_at_a_time cur [] = True"
| "one_at_a_time cur (Accept s c # es) =
     (cur = None \<and> one_at_a_time (if 0 \<le> c then Some c else None) es)"
| "one_at_a_time cur (From_stream i out r # es) =
     (cur = Some i \<and> out = i \<and> one_at_a_time None es)"
| "one_at_a_time cur (e # es) = one_at_a_time cur es"

text \<open>The events between the world \<open>w\<close> and a later world \<open>w'\<close>.\<close>

definition new_events :: "world \<Rightarrow> world \<Rightarrow> event list" where
  "new_events w w' = drop (length (events w)) (events w')"

subsection \<open>The port options\<close>

text \<open>
  The arguments of the \<^verbatim>\<open>--port\<close> options in the order given. The last one is the one
  \<^verbatim>\<open>listen_port\<close> keeps; a listen port is present when there is one and its conversion is
  strictly positive. \<open>without_port\<close> is the command line with every \<^verbatim>\<open>--port\<close> removed.
\<close>

fun port_args :: "getopt list \<Rightarrow> string list" where
  "port_args [] = []"
| "port_args (Opt_p optarg # opts) = optarg # port_args opts"
| "port_args (opt # opts) = port_args opts"

definition port_present :: "platform \<Rightarrow> getopt list \<Rightarrow> bool" where
  "port_present p opts = (port_args opts \<noteq> [] \<and> 0 < atoi p (last (port_args opts)))"

fun without_port :: "getopt list \<Rightarrow> getopt list" where
  "without_port [] = []"
| "without_port (Opt_p optarg # opts) = without_port opts"
| "without_port (opt # opts) = opt # without_port opts"

subsection \<open>Positions supplied by a flag\<close>

text \<open>
  The four \<^verbatim>\<open>float\<close> arrays of the configuration and the options that override them. An
  override list supplies the positions below the count \<^verbatim>\<open>parse_float_array\<close> returns for
  it; the count does not depend on the array the values go to.
\<close>

datatype float_field = Steps_per_mm | Max_feedrate | Acceleration | Move_range_mm

fun field_of :: "float_field \<Rightarrow> MachineControlConfig \<Rightarrow> cfloat list" where
  "field_of Steps_per_mm c = steps_per_mm c"
| "field_of Max_feedrate c = max_feedrate c"
| "field_of Acceleration c = acceleration c"
| "field_of Move_range_mm c = move_range_mm c"

fun float_override :: "getopt \<Rightarrow> (float_field \<times> string) option" where
  "float_override (SET_STEPS_MM optarg) = Some (Steps_per_mm, optarg)"
| "float_override (Opt_m optarg) = Some (Max_feedrate, optarg)"
| "float_override (Opt_a optarg) = Some (Acceleration, optarg)"
| "float_override (Opt_r optarg) = Some (Move_range_mm, optarg)"
| "float_override opt = None"

definition tokens_supplied :: "platform \<Rightarrow> string \<Rightarrow> nat" where
  "tokens_supplied p optarg =
     nat (fst (parse_float_array p optarg [] (int (GCODE_NUM_AXES p))))"

definition supplied :: "platform \<Rightarrow> getopt list \<Rightarrow> float_field \<Rightarrow> nat \<Rightarrow> bool" where
  "supplied p opts f j =
     (\<exists>opt \<in> set opts. case float_override opt of
        None \<Rightarrow> False
      | Some (f', optarg) \<Rightarrow> f' = f \<and> j < tokens_supplied p optarg)"

subsection \<open>Lists of unsigned integers\<close>

text \<open>
  The plainest well-formed input: nonempty strings of decimal digits, separated by commas.
\<close>

definition digit_string :: "string \<Rightarrow> bool" where
  "digit_string t = (t \<noteq> [] \<and> (\<forall>c \<in> set t. isdigit c))"

definition comma_separated :: "string list \<Rightarrow> (string \<times> char) list" where
  "comma_separated ts = map (\<lambda>t. (t, CHR '','')) ts"

section \<open>Properties of \<^verbatim>\<open>parse_float_array\<close>\<close>

declare parse_float_array_loop.simps [simp del]

lemmas libc_defs =
  libc_def strtod_decimal_def atoi_decimal_def isspace_def isdigit_def scan_sign_def
  scan_exponent_def digits_val_def digit_val_def scale10_def

lemma libc_sel:
  "GCODE_NUM_AXES (libc n) = n" "strtod (libc n) = strtod_decimal"
  "atoi (libc n) = atoi_decimal" "atof (libc n) = (\<lambda>s. fst (strtod_decimal s))"
  by (simp_all add: libc_def)

lemmas scan_defs =
  strtod_decimal_def atoi_decimal_def isspace_def isdigit_def scan_sign_def
  scan_exponent_def digits_val_def digit_val_def scale10_def

lemma parse_float_array_loop_error:
  "snd (strtod p input) = 0 \<Longrightarrow> int i < count \<Longrightarrow>
   parse_float_array_loop p input result count i = (0, result[i := fst (strtod p input)])"
  by (subst parse_float_array_loop.simps) (simp add: split_beta)

lemma parse_float_array_loop_terminator:
  "snd (strtod p input) = length input \<Longrightarrow> input \<noteq> [] \<Longrightarrow> int i < count \<Longrightarrow>
   parse_float_array_loop p input result count i =
   (int i + 1, result[i := fst (strtod p input)])"
  by (subst parse_float_array_loop.simps) (simp add: split_beta)

lemma parse_float_array_loop_delimiter:
  "snd (strtod p (t @ d # rest)) = length t \<Longrightarrow> t \<noteq> [] \<Longrightarrow> int i < count \<Longrightarrow>
   parse_float_array_loop p (t @ d # rest) result count i =
   parse_float_array_loop p rest (result[i := fst (strtod p (t @ d # rest))]) count (i + 1)"
  by (subst parse_float_array_loop.simps) (simp add: split_beta)

lemma parse_float_array_loop_full:
  "\<not> int i < count \<Longrightarrow> parse_float_array_loop p input result count i = (count, result)"
  by (subst parse_float_array_loop.simps) simp

text \<open>
  Reading \<open>length ts\<close> well-formed tokens from position \<open>i\<close> on stores their values at the
  positions \<open>i\<close>, \<open>i + 1\<close>, ... and goes on with the rest of the string.
\<close>

lemma parse_float_array_loop_tokens:
  "leading_tokens p ts rest \<Longrightarrow> int (i + length ts) \<le> count \<Longrightarrow>
   i + length ts \<le> length result \<Longrightarrow>
   parse_float_array_loop p (joined ts rest) result count i =
   parse_float_array_loop p rest
     (take i result @ token_values p ts rest @ drop (i + length ts) result) count
     (i + length ts)"
proof (induction ts arbitrary: i result)
  case Nil
  then show ?case by simp
next
  case (Cons a ts)
  obtain t d where a: "a = (t, d)" by (cases a)
  let ?v = "fst (strtod p (t @ d # joined ts rest))"
  from Cons.prems a have t: "t \<noteq> []" "snd (strtod p (t @ d # joined ts rest)) = length t"
    and lt: "leading_tokens p ts rest" by simp_all
  from Cons.prems have i: "int i < count" "i < length result" by simp_all
  have step: "parse_float_array_loop p (joined (a # ts) rest) result count i =
      parse_float_array_loop p (joined ts rest) (result[i := ?v]) count (i + 1)"
    using parse_float_array_loop_delimiter [OF t(2) t(1) i(1)] a by simp
  have ih: "parse_float_array_loop p (joined ts rest) (result[i := ?v]) count (i + 1) =
      parse_float_array_loop p rest
        (take (i + 1) (result[i := ?v]) @ token_values p ts rest @
         drop (i + 1 + length ts) (result[i := ?v])) count (i + 1 + length ts)"
    using Cons.IH [OF lt, of "i + 1" "result[i := ?v]"] Cons.prems by simp
  have tk: "take (i + 1) (result[i := ?v]) = take i result @ [?v]"
    using i(2) by (simp add: take_Suc_conv_app_nth)
  have dr: "drop (i + 1 + length ts) (result[i := ?v]) = drop (i + 1 + length ts) result"
    by simp
  show ?case
    unfolding step ih tk dr using a by simp
qed

lemma token_values_length: "length (token_values p ts rest) = length ts"
  by (induction ts) auto

text \<open>
  C3. The claim: for every input whose very first token has no numeric prefix,
  \<^verbatim>\<open>parse_float_array\<close> returns 0 and leaves the destination array completely
  unmodified. The source stores the value \<^verbatim>\<open>strtod\<close> returns into \<^verbatim>\<open>result[0]\<close> before it
  tests \<^verbatim>\<open>end == input\<close>. With the input \<open>x\<close> and the default feed rates as the
  destination, the count is 0 and position 0 has changed from 200 to 0.
\<close>

theorem parse_float_array_first_token_counterexample:
  "snd (strtod (libc 7) ''x'') = 0 \<and>
   fst (parse_float_array (libc 7) ''x'' [200, 200, 90, 10, 1, 0, 0] 7) = 0 \<and>
   snd (parse_float_array (libc 7) ''x'' [200, 200, 90, 10, 1, 0, 0] 7) =
     [0, 200, 90, 10, 1, 0, 0] \<and>
   snd (parse_float_array (libc 7) ''x'' [200, 200, 90, 10, 1, 0, 0] 7) \<noteq>
     [200, 200, 90, 10, 1, 0, 0]"
  by (simp add: parse_float_array_def parse_float_array_loop.simps libc_defs)

text \<open>
  C3, amended. For every input whose very first token has no numeric prefix (\<^verbatim>\<open>strtod\<close>
  consumes nothing and returns \<open>v\<close>, which the C standard fixes as zero) and every
  \<open>count \<ge> 1\<close>, \<^verbatim>\<open>parse_float_array\<close> returns 0, stores \<open>v\<close> at position 0 and leaves
  every other position of the destination array unmodified.
\<close>

theorem parse_float_array_first_token_error:
  assumes "strtod p input = (v, 0)" and "0 < count"
  shows "parse_float_array p input result count = (0, result[0 := v])"
  using assms parse_float_array_loop_error [of p input 0 count result]
  by (simp add: parse_float_array_def)

theorem parse_float_array_first_token_error_witness:
  "strtod (libc 3) ''x,2'' = (0, 0) \<and> (0::int) < 3 \<and>
   parse_float_array (libc 3) ''x,2'' [7, 8, 9] 3 = (0, [0, 8, 9])"
proof -
  have h: "strtod (libc 3) ''x,2'' = (0, 0)"
    by (simp add: libc_defs)
  have c: "(0::int) < 3"
    by simp
  show ?thesis
    using h c parse_float_array_first_token_error [OF h c, of "[7, 8, 9]"] by simp
qed

lemma parse_float_array_terminated:
  assumes "leading_tokens p ts final"
    and "final \<noteq> []" and "snd (strtod p final) = length final"
    and "int (length ts) + 1 \<le> count" and "nat count \<le> length result"
  shows "parse_float_array p (joined ts final) result count =
           (int (length ts) + 1,
            token_values p ts final @ fst (strtod p final) # drop (length ts + 1) result)"
proof -
  have len: "length ts < length result" and cnt: "int (0 + length ts) < count"
    using assms(4,5) by simp_all
  have "parse_float_array p (joined ts final) result count =
      parse_float_array_loop p final
        (take 0 result @ token_values p ts final @ drop (0 + length ts) result) count
        (0 + length ts)"
    unfolding parse_float_array_def
    using assms(1) cnt len by (intro parse_float_array_loop_tokens) simp_all
  also have "\<dots> = (int (0 + length ts) + 1,
      (take 0 result @ token_values p ts final @ drop (0 + length ts) result)
        [0 + length ts := fst (strtod p final)])"
    using assms(3) assms(2) cnt by (rule parse_float_array_loop_terminator)
  also have "(take 0 result @ token_values p ts final @ drop (0 + length ts) result)
        [0 + length ts := fst (strtod p final)] =
      token_values p ts final @ (drop (length ts) result)[0 := fst (strtod p final)]"
    by (simp add: list_update_append token_values_length)
  also have "(drop (length ts) result)[0 := fst (strtod p final)] =
      fst (strtod p final) # drop (length ts + 1) result"
    by (subst Cons_nth_drop_Suc [OF len, symmetric]) simp
  finally show ?thesis by simp
qed

lemma parse_float_array_capacity:
  assumes "leading_tokens p ts rest"
    and "int (length ts) = count" and "length ts \<le> length result"
  shows "parse_float_array p (joined ts rest) result count =
           (count, token_values p ts rest @ drop (length ts) result)"
proof -
  have "parse_float_array p (joined ts rest) result count =
      parse_float_array_loop p rest
        (take 0 result @ token_values p ts rest @ drop (0 + length ts) result) count
        (0 + length ts)"
    unfolding parse_float_array_def
    using assms by (intro parse_float_array_loop_tokens) simp_all
  also have "\<dots> = (count, take 0 result @ token_values p ts rest @ drop (0 + length ts) result)"
    using assms(2) by (intro parse_float_array_loop_full) simp
  finally show ?thesis by simp
qed

text \<open>
  C7. For every input that consists of \<open>k \<le> N\<close> well-formed tokens separated by single
  delimiter characters, \<^verbatim>\<open>parse_float_array\<close> returns exactly \<open>k\<close>, writes the \<open>k\<close> parsed
  values in order into the positions \<open>0 .. k - 1\<close> and leaves the positions \<open>k .. N - 1\<close>
  as they were before the call. The count is \<open>i + 1\<close> when the string terminator follows
  token \<open>i\<close> (the tokens of \<open>ts\<close> with their delimiters, then the token \<open>final\<close>, so
  \<open>k = length ts + 1\<close>), and it is \<open>N\<close> when all \<open>N\<close> positions are consumed (the \<open>N\<close>
  tokens of \<open>ts\<close>, each with a delimiter after it, whatever follows them). The array has
  at least \<open>N\<close> elements, as the C function requires.
\<close>

theorem parse_float_array_tokens:
  "(leading_tokens p ts final \<and> final \<noteq> [] \<and> snd (strtod p final) = length final \<and>
    int (length ts) + 1 \<le> count \<and> nat count \<le> length result \<longrightarrow>
      parse_float_array p (joined ts final) result count =
        (int (length ts) + 1,
         token_values p ts final @ fst (strtod p final) # drop (length ts + 1) result)) \<and>
   (leading_tokens p ts final \<and> int (length ts) = count \<and> length ts \<le> length result \<longrightarrow>
      parse_float_array p (joined ts final) result count =
        (count, token_values p ts final @ drop (length ts) result))"
  using parse_float_array_terminated [of p ts final count result]
    parse_float_array_capacity [of p ts final count result]
  by blast

theorem parse_float_array_tokens_witness:
  "leading_tokens (libc 5) [(''1'', CHR '',''), (''2'', CHR '','')] ''3'' \<and>
   ''3'' \<noteq> [] \<and> snd (strtod (libc 5) ''3'') = length ''3'' \<and>
   int (length [(''1'', CHR '',''), (''2'', CHR '','')]) + 1 \<le> 5 \<and>
   nat 5 \<le> length [9, 8, 7, 6, 5 :: cfloat] \<and>
   joined [(''1'', CHR '',''), (''2'', CHR '','')] ''3'' = ''1,2,3'' \<and>
   parse_float_array (libc 5) ''1,2,3'' [9, 8, 7, 6, 5] 5 = (3, [1, 2, 3, 6, 5]) \<and>
   int (length [(''1'', CHR '',''), (''2'', CHR '','')]) = 2 \<and>
   length [(''1'', CHR '',''), (''2'', CHR '','')] \<le> length [9, 8 :: cfloat] \<and>
   parse_float_array (libc 5) ''1,2,3'' [9, 8] 2 = (2, [1, 2])"
proof -
  let ?ts = "[(''1'', CHR '',''), (''2'', CHR '','')]"
  have h1: "leading_tokens (libc 5) ?ts ''3''"
    by (simp add: libc_defs)
  have h2: "''3'' \<noteq> []"
    by simp
  have h3: "snd (strtod (libc 5) ''3'') = length ''3''"
    by (simp add: libc_defs)
  have h4: "int (length ?ts) + 1 \<le> 5"
    by simp
  have h5: "nat 5 \<le> length [9, 8, 7, 6, 5 :: cfloat]"
    by simp
  have h6: "int (length ?ts) = 2"
    by simp
  have h7: "length ?ts \<le> length [9, 8 :: cfloat]"
    by simp
  have j: "joined ?ts ''3'' = ''1,2,3''"
    by simp
  have v: "token_values (libc 5) ?ts ''3'' = [1, 2]" "fst (strtod (libc 5) ''3'') = 3"
    by (simp_all add: libc_defs)
  have c1: "parse_float_array (libc 5) ''1,2,3'' [9, 8, 7, 6, 5] 5 = (3, [1, 2, 3, 6, 5])"
    using parse_float_array_tokens [where p = "libc 5" and ts = ?ts and final = "''3''"
        and count = 5 and result = "[9, 8, 7, 6, 5]", THEN conjunct1] h1 h3 v
    by simp
  have c2: "parse_float_array (libc 5) ''1,2,3'' [9, 8] 2 = (2, [1, 2])"
    using parse_float_array_tokens [where p = "libc 5" and ts = ?ts and final = "''3''"
        and count = 2 and result = "[9, 8]", THEN conjunct2] h1 v
    by simp
  show ?thesis
    by (intro conjI; fact)
qed

text \<open>
  C8. For every input with a malformed token at a position \<open>i > 0\<close> of the array (the
  tokens of \<open>ts\<close>, one or more, parse; \<open>i = length ts < N\<close>; at \<open>bad\<close> \<^verbatim>\<open>strtod\<close> finds no
  numeric prefix), \<^verbatim>\<open>parse_float_array\<close> returns 0, although the values of the tokens
  before it have been written.
  The array has at least \<open>N\<close> elements.
\<close>

theorem parse_float_array_malformed_token:
  assumes "leading_tokens p ts bad" and "ts \<noteq> []"
    and "snd (strtod p bad) = 0"
    and "int (length ts) < count" and "nat count \<le> length result"
  shows "parse_float_array p (joined ts bad) result count =
           (0, token_values p ts bad @ fst (strtod p bad) # drop (length ts + 1) result)"
proof -
  have len: "length ts < length result" and cnt: "int (0 + length ts) < count"
    using assms(4,5) by simp_all
  have "parse_float_array p (joined ts bad) result count =
      parse_float_array_loop p bad
        (take 0 result @ token_values p ts bad @ drop (0 + length ts) result) count
        (0 + length ts)"
    unfolding parse_float_array_def
    using assms(1) cnt len by (intro parse_float_array_loop_tokens) simp_all
  also have "\<dots> = (0,
      (take 0 result @ token_values p ts bad @ drop (0 + length ts) result)
        [0 + length ts := fst (strtod p bad)])"
    using assms(3) cnt by (rule parse_float_array_loop_error)
  also have "(take 0 result @ token_values p ts bad @ drop (0 + length ts) result)
        [0 + length ts := fst (strtod p bad)] =
      token_values p ts bad @ (drop (length ts) result)[0 := fst (strtod p bad)]"
    by (simp add: list_update_append token_values_length)
  also have "(drop (length ts) result)[0 := fst (strtod p bad)] =
      fst (strtod p bad) # drop (length ts + 1) result"
    by (subst Cons_nth_drop_Suc [OF len, symmetric]) simp
  finally show ?thesis by simp
qed

theorem parse_float_array_malformed_token_witness:
  "leading_tokens (libc 3) [(''1'', CHR '','')] ''x,3'' \<and>
   [(''1'', CHR '','')] \<noteq> [] \<and> snd (strtod (libc 3) ''x,3'') = 0 \<and>
   int (length [(''1'', CHR '','')]) < 3 \<and> nat 3 \<le> length [7, 8, 9 :: cfloat] \<and>
   joined [(''1'', CHR '','')] ''x,3'' = ''1,x,3'' \<and>
   parse_float_array (libc 3) ''1,x,3'' [7, 8, 9] 3 = (0, [1, 0, 9])"
proof -
  let ?ts = "[(''1'', CHR '','')]"
  have h1: "leading_tokens (libc 3) ?ts ''x,3''"
    by (simp add: libc_defs)
  have h2: "?ts \<noteq> []"
    by simp
  have h3: "snd (strtod (libc 3) ''x,3'') = 0"
    by (simp add: libc_defs)
  have h4: "int (length ?ts) < 3"
    by simp
  have h5: "nat 3 \<le> length [7, 8, 9 :: cfloat]"
    by simp
  have v: "token_values (libc 3) ?ts ''x,3'' = [1]" "fst (strtod (libc 3) ''x,3'') = 0"
    by (simp_all add: libc_defs)
  show ?thesis
    using h1 h3 parse_float_array_malformed_token [OF h1 h2 h3 h4 h5] v by simp
qed

text \<open>
  A successful call leaves every position from the returned count on untouched, and the
  count is the same for every destination array.
\<close>

lemma parse_float_array_loop_untouched:
  "parse_float_array_loop p input result count i = (n, result') \<Longrightarrow> int i \<le> count \<Longrightarrow>
   n \<noteq> 0 \<Longrightarrow>
   int i \<le> n \<and> length result' = length result \<and> (\<forall>j. nat n \<le> j \<longrightarrow> result' ! j = result ! j)"
proof (induction p input result count i rule: parse_float_array_loop.induct)
  case (1 p input result count i)
  show ?case
  proof (cases "int i < count")
    case False
    then show ?thesis
      using "1.prems" by (simp add: parse_float_array_loop_full)
  next
    case True
    obtain v m where s: "strtod p input = (v, m)"
      by (cases "strtod p input")
    have m: "m \<noteq> 0"
      using "1.prems" True s parse_float_array_loop_error [of p input i count result] by auto
    show ?thesis
    proof (cases "drop m input = []")
      case stop: True
      then have "parse_float_array_loop p input result count i = (int i + 1, result[i := v])"
        using True s m by (subst parse_float_array_loop.simps) simp
      then show ?thesis
        using "1.prems" by auto
    next
      case go: False
      have e: "parse_float_array_loop p input result count i =
          parse_float_array_loop p (drop (m + 1) input) (result[i := v]) count (i + 1)"
        using True s m go by (subst parse_float_array_loop.simps) simp
      have "int (i + 1) \<le> n \<and> length result' = length (result[i := v]) \<and>
          (\<forall>j. nat n \<le> j \<longrightarrow> result' ! j = result[i := v] ! j)"
        using "1.IH" [OF True s [symmetric] refl refl m go] "1.prems" True e by simp
      then show ?thesis
        by auto
    qed
  qed
qed

lemma parse_float_array_untouched:
  "parse_float_array p input result count = (n, result') \<Longrightarrow> 0 \<le> count \<Longrightarrow> n \<noteq> 0 \<Longrightarrow>
   length result' = length result \<and> (\<forall>j. nat n \<le> j \<longrightarrow> result' ! j = result ! j)"
  using parse_float_array_loop_untouched [of p input result count 0 n result']
  by (simp add: parse_float_array_def)


lemma parse_float_array_loop_count:
  "fst (parse_float_array_loop p input result count i) =
   fst (parse_float_array_loop p input result2 count i)"
proof (induction p input result count i arbitrary: result2
    rule: parse_float_array_loop.induct)
  case (1 p input result count i)
  show ?case
  proof (cases "int i < count")
    case False
    then show ?thesis
      by (simp add: parse_float_array_loop_full)
  next
    case True
    obtain v m where s: "strtod p input = (v, m)"
      by (cases "strtod p input")
    show ?thesis
    proof (cases "m = 0 \<or> drop m input = []")
      case True
      then show ?thesis
        using \<open>int i < count\<close> s
        by (subst (1 2) parse_float_array_loop.simps) (auto simp: Let_def)
    next
      case False
      then have m: "m \<noteq> 0" and go: "drop m input \<noteq> []"
        by simp_all
      have "\<And>r. parse_float_array_loop p input r count i =
          parse_float_array_loop p (drop (m + 1) input) (r[i := v]) count (i + 1)"
        using True s m go by (subst parse_float_array_loop.simps) simp
      then show ?thesis
        using "1.IH" [OF True s [symmetric] refl refl m go, of "result2[i := v]"] by simp
    qed
  qed
qed

lemma parse_float_array_count:
  "nat (fst (parse_float_array p optarg result (int (GCODE_NUM_AXES p)))) =
   tokens_supplied p optarg"
  unfolding tokens_supplied_def parse_float_array_def
  by (simp add: parse_float_array_loop_count [of p optarg result _ 0 "[]"])

text \<open>
  With the decimal \<^verbatim>\<open>strtod\<close>, every comma-separated list of \<open>k \<le> N\<close> unsigned integers is
  well formed: the call returns \<open>k\<close> and stores the \<open>k\<close> numbers in order.
\<close>

lemma isdigit_not_space_sign:
  "isdigit c \<Longrightarrow> \<not> isspace c \<and> c \<noteq> CHR ''-'' \<and> c \<noteq> CHR ''+''"
  by (auto simp: isdigit_def isspace_def)

lemma strtod_decimal_digit_string:
  assumes "digit_string t" and "rest = [] \<or> hd rest = CHR '',''"
  shows "strtod_decimal (t @ rest) = (real (digits_val t), length t)"
proof -
  obtain c t' where t: "t = c # t'" and c: "isdigit c"
    using assms(1) by (cases t) (auto simp: digit_string_def)
  have all: "\<forall>x \<in> set t. isdigit x"
    using assms(1) by (simp add: digit_string_def)
  have sp: "dropWhile isspace (t @ rest) = t @ rest"
    using t c isdigit_not_space_sign by simp
  have sg: "scan_sign (t @ rest) = (False, 0)"
    using t c isdigit_not_space_sign by (simp add: scan_sign_def)
  have nd: "takeWhile isdigit rest = []" "dropWhile isdigit rest = rest"
    using assms(2) by (cases rest; auto simp: isdigit_def)+
  have tk: "takeWhile isdigit (t @ rest) = t"
    using all nd by (simp add: takeWhile_append2)
  have dr: "dropWhile isdigit (t @ rest) = rest"
    using all nd by (simp add: dropWhile_append2)
  have pt: "(rest \<noteq> [] \<and> hd rest = CHR ''.'') = False"
    using assms(2) by auto
  have ex: "scan_exponent rest = (0, 0)"
    using assms(2) by (cases rest) (auto simp: scan_exponent_def)
  have ne: "t \<noteq> []"
    using t by simp
  show ?thesis
    using ne
    by (simp add: strtod_decimal_def sp sg tk dr ex pt scale10_def Let_def)
qed


lemma leading_tokens_digit_strings:
  "\<forall>t \<in> set ts. digit_string t \<Longrightarrow>
   leading_tokens (libc n) (comma_separated ts) rest \<and>
   token_values (libc n) (comma_separated ts) rest = map (\<lambda>t. real (digits_val t)) ts"
proof (induction ts)
  case Nil
  show ?case by (simp add: comma_separated_def)
next
  case (Cons t ts)
  then have d: "digit_string t" and ih: "leading_tokens (libc n) (comma_separated ts) rest"
      "token_values (libc n) (comma_separated ts) rest = map (\<lambda>t. real (digits_val t)) ts"
    by simp_all
  have s: "strtod_decimal (t @ CHR '','' # joined (comma_separated ts) rest) =
      (real (digits_val t), length t)"
    using d by (rule strtod_decimal_digit_string) simp
  have ne: "t \<noteq> []"
    using d by (simp add: digit_string_def)
  show ?case
    using ih s ne by (simp add: comma_separated_def libc_sel)
qed

lemma parse_float_array_digit_strings:
  assumes "\<forall>t \<in> set ts. digit_string t" and "digit_string final"
    and "int (length ts) + 1 \<le> count" and "nat count \<le> length result"
  shows "parse_float_array (libc n) (joined (comma_separated ts) final) result count =
           (int (length ts) + 1,
            map (\<lambda>t. real (digits_val t)) (ts @ [final]) @ drop (length ts + 1) result)"
proof -
  have f: "strtod_decimal final = (real (digits_val final), length final)"
    using strtod_decimal_digit_string [OF assms(2), of "[]"] by simp
  have ne: "final \<noteq> []"
    using assms(2) by (simp add: digit_string_def)
  have l: "length (comma_separated ts) = length ts"
    by (simp add: comma_separated_def)
  note lt = leading_tokens_digit_strings [OF assms(1), of n final]
  show ?thesis
    using parse_float_array_terminated [of "libc n" "comma_separated ts" final count result]
      lt f ne assms(3,4)
    by (simp add: l libc_sel)
qed

section \<open>Properties of \<^verbatim>\<open>send_file_to_machine\<close>\<close>

lemma send_file_step:
  "send_file_to_machine (Suc fuel) fn do_loop w =
     (if shd (stream_results w) \<noteq> 0 then (Some 1, after_playback fn (Suc 0) w)
      else if do_loop then send_file_to_machine fuel fn do_loop (after_playback fn (Suc 0) w)
      else (Some 0, after_playback fn (Suc 0) w))"
  by (simp add: c_open_def gcode_machine_control_from_stream_def emit_def after_playback_def Let_def)

lemma after_playback_Suc:
  "after_playback fn (Suc n) w = after_playback fn n (after_playback fn (Suc 0) w)"
  by (simp add: after_playback_def)

lemma send_file_running:
  "(\<forall>j<n. stream_results w !! j = 0) \<Longrightarrow>
   send_file_to_machine (n + m) fn True w = send_file_to_machine m fn True (after_playback fn n w)"
proof (induction n arbitrary: w)
  case 0
  then show ?case by (simp add: after_playback_def)
next
  case (Suc n)
  have z: "shd (stream_results w) = 0"
    using Suc.prems [rule_format, of 0] by simp
  have r: "\<forall>j<n. stream_results (after_playback fn (Suc 0) w) !! j = 0"
    using Suc.prems by (auto simp: after_playback_def)
  have "send_file_to_machine (Suc n + m) fn True w =
      send_file_to_machine (n + m) fn True (after_playback fn (Suc 0) w)"
    using z by (simp only: add_Suc send_file_step) simp
  also have "\<dots> = send_file_to_machine m fn True (after_playback fn n (after_playback fn (Suc 0) w))"
    by (rule Suc.IH [OF r])
  finally show ?case
    by (simp only: after_playback_Suc [symmetric])
qed

lemma engine_calls_after_playback:
  "engine_calls (after_playback fn n w) = engine_calls w + n"
proof (induction n arbitrary: w)
  case 0
  show ?case by (simp add: after_playback_def engine_calls_def)
next
  case (Suc n)
  have "engine_calls (after_playback fn (Suc 0) w) = engine_calls w + 1"
    by (simp add: after_playback_def engine_calls_def)
  then show ?case
    by (simp only: after_playback_Suc [of fn n w] Suc.IH)
qed


lemma playback_events_append:
  "playback_events fn fds rs (n + m) =
   playback_events fn fds rs n @ playback_events fn (sdrop n fds) (sdrop n rs) m"
  by (induction n arbitrary: fds rs) simp_all


lemma playback_events_snoc:
  "playback_events fn fds rs k @
     [Open fn (fds !! k), From_stream (fds !! k) STDERR_FILENO (rs !! k)] =
   playback_events fn fds rs (Suc k)"
  by (induction k arbitrary: fds rs) simp_all

text \<open>
  C9. With the repeat flag disabled the engine's stream processing is invoked exactly
  once, whatever its result (one round of playback, and the function has returned). With
  repeat enabled, when the engine answers 0 to the first \<open>k\<close> calls and non-zero to the
  next one, the function returns 1 right after that call, without opening the file again
  (\<open>k + 1\<close> rounds in all, for every amount of fuel above \<open>k\<close>). When the engine answers 0
  to every call, the function has not returned after \<open>n\<close> rounds, for every \<open>n\<close>: each
  round opens the file afresh and calls the engine, so the engine is invoked at least
  \<open>n\<close> times for every \<open>n\<close>.
\<close>

theorem send_file_to_machine_repeat:
  "send_file_to_machine (Suc fuel) fn False w =
     (Some (if shd (stream_results w) \<noteq> 0 then 1 else 0), after_playback fn 1 w) \<and>
   ((\<forall>j<k. stream_results w !! j = 0) \<and> stream_results w !! k \<noteq> 0 \<and> k < fuel \<longrightarrow>
      send_file_to_machine fuel fn True w = (Some 1, after_playback fn (Suc k) w)) \<and>
   ((\<forall>j. stream_results w !! j = 0) \<longrightarrow>
      (\<forall>n. send_file_to_machine n fn True w = (None, after_playback fn n w))) \<and>
   (\<forall>n. engine_calls (after_playback fn n w) = engine_calls w + n)"
proof (intro conjI impI allI)
  show "send_file_to_machine (Suc fuel) fn False w =
     (Some (if shd (stream_results w) \<noteq> 0 then 1 else 0), after_playback fn 1 w)"
    by (simp add: send_file_step del: send_file_to_machine.simps)
next
  assume h: "(\<forall>j<k. stream_results w !! j = 0) \<and> stream_results w !! k \<noteq> 0 \<and> k < fuel"
  then have "k < fuel" by simp
  then obtain m where m: "fuel = k + Suc m"
    by (auto dest: less_imp_Suc_add)
  have nz: "shd (stream_results (after_playback fn k w)) \<noteq> 0"
    using h by (simp add: after_playback_def)
  have "send_file_to_machine fuel fn True w =
      send_file_to_machine (Suc m) fn True (after_playback fn k w)"
    unfolding m using h by (intro send_file_running) simp
  also have "\<dots> = (Some 1, after_playback fn (Suc 0) (after_playback fn k w))"
    using nz by (simp add: send_file_step del: send_file_to_machine.simps)
  also have "after_playback fn (Suc 0) (after_playback fn k w) = after_playback fn (Suc k) w"
    using playback_events_append [of fn "open_results w" "stream_results w" k "Suc 0"]
    by (simp add: after_playback_def del: playback_events.simps)
  finally show "send_file_to_machine fuel fn True w = (Some 1, after_playback fn (Suc k) w)" .
next
  fix n
  assume "\<forall>j. stream_results w !! j = 0"
  then have "send_file_to_machine (n + 0) fn True w =
      send_file_to_machine 0 fn True (after_playback fn n w)"
    by (intro send_file_running) simp
  then show "send_file_to_machine n fn True w = (None, after_playback fn n w)"
    by simp
next
  fix n
  show "engine_calls (after_playback fn n w) = engine_calls w + n"
    by (rule engine_calls_after_playback)
qed


theorem send_file_to_machine_repeat_witness:
  "send_file_to_machine 1 ''job.gcode'' False (world_of (sconst 5) (7 ## sconst 0) (sconst 4)) =
     (Some 1, after_playback ''job.gcode'' 1 (world_of (sconst 5) (7 ## sconst 0) (sconst 4))) \<and>
   stream_results (world_of (sconst 5) (0 ## 0 ## 7 ## sconst 0) (sconst 4)) !! 0 = 0 \<and>
   stream_results (world_of (sconst 5) (0 ## 0 ## 7 ## sconst 0) (sconst 4)) !! 1 = 0 \<and>
   stream_results (world_of (sconst 5) (0 ## 0 ## 7 ## sconst 0) (sconst 4)) !! 2 \<noteq> 0 \<and>
   (2::nat) < 9 \<and>
   fst (send_file_to_machine 9 ''job.gcode'' True
          (world_of (sconst 5) (0 ## 0 ## 7 ## sconst 0) (sconst 4))) = Some 1 \<and>
   events (snd (send_file_to_machine 9 ''job.gcode'' True
          (world_of (sconst 5) (0 ## 0 ## 7 ## sconst 0) (sconst 4)))) =
     [Open ''job.gcode'' 5, From_stream 5 2 0, Open ''job.gcode'' 5, From_stream 5 2 0,
      Open ''job.gcode'' 5, From_stream 5 2 7] \<and>
   fst (send_file_to_machine 9 ''job.gcode'' True
          (world_of (sconst 5) (sconst 0) (sconst 4))) = None \<and>
   engine_calls (snd (send_file_to_machine 9 ''job.gcode'' True
          (world_of (sconst 5) (sconst 0) (sconst 4)))) = 9"
proof -
  let ?w1 = "world_of (sconst 5) (7 ## sconst 0) (sconst 4)"
  let ?w2 = "world_of (sconst 5) (0 ## 0 ## 7 ## sconst 0) (sconst 4)"
  let ?w3 = "world_of (sconst 5) (sconst 0) (sconst 4)"
  have a: "send_file_to_machine 1 ''job.gcode'' False ?w1 =
      (Some 1, after_playback ''job.gcode'' 1 ?w1)"
    using send_file_to_machine_repeat [where fuel = 0 and fn = "''job.gcode''" and w = ?w1]
    by (simp add: world_of_def)
  have h2: "(\<forall>j<2. stream_results ?w2 !! j = 0) \<and> stream_results ?w2 !! 2 \<noteq> 0 \<and> (2::nat) < 9"
    by (simp add: world_of_def numeral_2_eq_2 less_Suc_eq)
  have b: "send_file_to_machine 9 ''job.gcode'' True ?w2 =
      (Some 1, after_playback ''job.gcode'' (Suc 2) ?w2)"
    using send_file_to_machine_repeat [where fuel = 9 and fn = "''job.gcode''" and w = ?w2
        and k = 2] h2 by blast
  have e: "events (after_playback ''job.gcode'' (Suc 2) ?w2) =
     [Open ''job.gcode'' 5, From_stream 5 2 0, Open ''job.gcode'' 5, From_stream 5 2 0,
      Open ''job.gcode'' 5, From_stream 5 2 7]"
    by (simp add: after_playback_def world_of_def numeral_2_eq_2 STDERR_FILENO_def)
  have h3: "\<forall>j. stream_results ?w3 !! j = 0"
    by (simp add: world_of_def)
  have c: "send_file_to_machine 9 ''job.gcode'' True ?w3 =
      (None, after_playback ''job.gcode'' 9 ?w3)"
    using send_file_to_machine_repeat [where fn = "''job.gcode''" and w = ?w3] h3 by blast
  have n: "engine_calls (after_playback ''job.gcode'' 9 ?w3) = 9"
    using send_file_to_machine_repeat [where fn = "''job.gcode''" and w = ?w3]
    by (simp add: engine_calls_def world_of_def)
  have s0: "stream_results ?w2 !! 0 = 0" and s1: "stream_results ?w2 !! 1 = 0"
    and s2: "stream_results ?w2 !! 2 \<noteq> 0" and lt: "(2::nat) < 9"
    by (simp_all add: world_of_def numeral_2_eq_2)
  have b1: "fst (send_file_to_machine 9 ''job.gcode'' True ?w2) = Some 1"
    by (simp only: b fst_conv)
  have b2: "events (snd (send_file_to_machine 9 ''job.gcode'' True ?w2)) =
     [Open ''job.gcode'' 5, From_stream 5 2 0, Open ''job.gcode'' 5, From_stream 5 2 0,
      Open ''job.gcode'' 5, From_stream 5 2 7]"
    by (simp only: b snd_conv e)
  have c1: "fst (send_file_to_machine 9 ''job.gcode'' True ?w3) = None"
    by (simp only: c fst_conv)
  have c2: "engine_calls (snd (send_file_to_machine 9 ''job.gcode'' True ?w3)) = 9"
    by (simp only: c snd_conv n)
  show ?thesis
    by (intro conjI; fact)
qed

section \<open>Properties of \<^verbatim>\<open>run_server\<close>\<close>

lemma server_loop_step:
  "server_loop (Suc fuel) s w =
     (if shd (accept_results w) < 0
      then (Some (Returned 1),
            w\<lparr>accept_results := stl (accept_results w),
              events := events w @ [Accept s (shd (accept_results w)), Perror ''accept'']\<rparr>)
      else if shd (stream_results w) = 0 then server_loop fuel s (after_sessions s (Suc 0) w)
      else (Some (Left_loop (shd (stream_results w))), after_sessions s (Suc 0) w))"
  by (simp add: c_accept_def gcode_machine_control_from_stream_def emit_def after_sessions_def
      Let_def)

lemma session_events_append:
  "session_events s cs rs (n + m) =
   session_events s cs rs n @ session_events s (sdrop n cs) (sdrop n rs) m"
  by (induction n arbitrary: cs rs) simp_all

lemma after_sessions_add:
  "after_sessions s m (after_sessions s n w) = after_sessions s (n + m) w"
  using session_events_append [of s "accept_results w" "stream_results w" n m]
  by (simp add: after_sessions_def add.commute del: session_events.simps)

lemma server_loop_running:
  "(\<forall>j<n. 0 \<le> accept_results w !! j \<and> stream_results w !! j = 0) \<Longrightarrow>
   server_loop (n + m) s w = server_loop m s (after_sessions s n w)"
proof (induction n arbitrary: w)
  case 0
  then show ?case by (simp add: after_sessions_def)
next
  case (Suc n)
  have z: "0 \<le> shd (accept_results w)" "shd (stream_results w) = 0"
    using Suc.prems [rule_format, of 0] by simp_all
  have r: "\<forall>j<n. 0 \<le> accept_results (after_sessions s (Suc 0) w) !! j \<and>
      stream_results (after_sessions s (Suc 0) w) !! j = 0"
    using Suc.prems by (auto simp: after_sessions_def)
  have "server_loop (Suc n + m) s w = server_loop (n + m) s (after_sessions s (Suc 0) w)"
    using z by (simp only: add_Suc server_loop_step) simp
  also have "\<dots> = server_loop m s (after_sessions s n (after_sessions s (Suc 0) w))"
    by (rule Suc.IH [OF r])
  finally show ?case
    by (simp only: after_sessions_add) simp
qed


lemma one_at_a_time_append:
  "one_at_a_time cur xs \<Longrightarrow> (\<And>c. one_at_a_time c ys) \<Longrightarrow> one_at_a_time cur (xs @ ys)"
  by (induction cur xs rule: one_at_a_time.induct) simp_all

lemma server_loop_events:
  "\<exists>X. events (snd (server_loop fuel s w)) = events w @ X \<and> one_at_a_time None X"
proof (induction fuel arbitrary: w)
  case 0
  show ?case by simp
next
  case (Suc fuel)
  let ?c = "shd (accept_results w)" and ?r = "shd (stream_results w)"
  consider (fail) "?c < 0" | (again) "0 \<le> ?c" "?r = 0" | (left) "0 \<le> ?c" "?r \<noteq> 0"
    by linarith
  then show ?case
  proof cases
    case fail
    then have "events (snd (server_loop (Suc fuel) s w)) =
        events w @ [Accept s ?c, Perror ''accept'']"
      by (simp add: server_loop_step del: server_loop.simps)
    moreover have "one_at_a_time None [Accept s ?c, Perror ''accept'']"
      using fail by simp
    ultimately show ?thesis by blast
  next
    case again
    obtain X where X: "events (snd (server_loop fuel s (after_sessions s (Suc 0) w))) =
        events (after_sessions s (Suc 0) w) @ X" "one_at_a_time None X"
      using Suc.IH by blast
    have "events (snd (server_loop (Suc fuel) s w)) =
        events w @ (session_events s (accept_results w) (stream_results w) (Suc 0) @ X)"
      using again X(1) by (simp add: server_loop_step after_sessions_def del: server_loop.simps)
    moreover have "one_at_a_time None
        (session_events s (accept_results w) (stream_results w) (Suc 0) @ X)"
      using again X(2) by simp
    ultimately show ?thesis by blast
  next
    case left
    then have "events (snd (server_loop (Suc fuel) s w)) =
        events w @ session_events s (accept_results w) (stream_results w) (Suc 0)"
      by (simp add: server_loop_step after_sessions_def del: server_loop.simps)
    moreover have "one_at_a_time None
        (session_events s (accept_results w) (stream_results w) (Suc 0))"
      using left by simp
    ultimately show ?thesis by blast
  qed
qed

lemma serve_connections_events:
  "\<exists>X. events (snd (serve_connections fuel s w)) = events w @ X \<and> one_at_a_time None X"
proof -
  obtain X where X: "events (snd (server_loop fuel s w)) = events w @ X" "one_at_a_time None X"
    using server_loop_events by blast
  obtain e w' where e: "server_loop fuel s w = (e, w')"
    by (cases "server_loop fuel s w")
  show ?thesis
  proof (cases e)
    case None
    then show ?thesis using X e by (simp add: serve_connections_def)
  next
    case (Some x)
    show ?thesis
    proof (cases x)
      case (Returned r)
      then show ?thesis using X e Some by (simp add: serve_connections_def)
    next
      case (Left_loop r)
      let ?Y = "[Close s, Fprintf_stderr
          ''Last gcode_machine_control_from_stream() == %d. Exiting'' [r]]"
      have "events (snd (serve_connections fuel s w)) = events w @ (X @ ?Y)"
        using X e Some Left_loop by (simp add: serve_connections_def emit_def)
      moreover have "one_at_a_time None (X @ ?Y)"
        using X(2) by (rule one_at_a_time_append) simp
      ultimately show ?thesis by blast
    qed
  qed
qed


lemma server_loop_next_session:
  "\<exists>X. events (snd (server_loop (Suc m) s w)) =
     events w @ Accept s (shd (accept_results w)) # X \<and>
     (0 \<le> shd (accept_results w) \<longrightarrow>
      Accept s (shd (accept_results w)) # X =
        session_events s (accept_results w) (stream_results w) (Suc 0) @ drop 3 X)"
proof -
  let ?c = "shd (accept_results w)" and ?r = "shd (stream_results w)"
  consider (fail) "?c < 0" | (again) "0 \<le> ?c" "?r = 0" | (left) "0 \<le> ?c" "?r \<noteq> 0"
    by linarith
  then show ?thesis
  proof cases
    case fail
    then show ?thesis
      by (simp add: server_loop_step del: server_loop.simps)
  next
    case again
    obtain X where X: "events (snd (server_loop m s (after_sessions s (Suc 0) w))) =
        events (after_sessions s (Suc 0) w) @ X"
      using server_loop_events by blast
    show ?thesis
      using again X by (simp add: server_loop_step after_sessions_def del: server_loop.simps)
  next
    case left
    then show ?thesis
      by (simp add: server_loop_step after_sessions_def del: server_loop.simps)
  qed
qed

lemma serve_connections_extends:
  "prefix (events (snd (server_loop fuel s w))) (events (snd (serve_connections fuel s w)))"
proof -
  obtain e w' where e: "server_loop fuel s w = (e, w')"
    by (cases "server_loop fuel s w")
  show ?thesis
  proof (cases e)
    case None
    then show ?thesis using e by (simp add: serve_connections_def)
  next
    case (Some x)
    then show ?thesis using e by (cases x) (simp_all add: serve_connections_def emit_def)
  qed
qed

lemma events_after_sessions:
  "events (after_sessions s n w) =
   events w @ session_events s (accept_results w) (stream_results w) n"
  by (simp add: after_sessions_def)

lemma serve_connections_next_session:
  assumes ok: "\<forall>j<k. 0 \<le> accept_results w !! j \<and> stream_results w !! j = 0"
    and fuel: "k < fuel"
  shows "prefix (events w @ session_events s (accept_results w) (stream_results w) k @
                  [Accept s (accept_results w !! k)])
           (events (snd (serve_connections fuel s w)))"
    and "0 \<le> accept_results w !! k \<Longrightarrow>
         prefix (events w @ session_events s (accept_results w) (stream_results w) (Suc k))
           (events (snd (serve_connections fuel s w)))"
proof -
  let ?wk = "after_sessions s k w"
  obtain m where m: "fuel = k + Suc m"
    using fuel by (auto dest: less_imp_Suc_add)
  have run: "server_loop fuel s w = server_loop (Suc m) s ?wk"
    unfolding m using ok by (rule server_loop_running)
  have c: "shd (accept_results ?wk) = accept_results w !! k"
    by (simp add: after_sessions_def)
  obtain X where X: "events (snd (server_loop (Suc m) s ?wk)) =
      events ?wk @ Accept s (shd (accept_results ?wk)) # X"
    and S: "0 \<le> shd (accept_results ?wk) \<longrightarrow>
      Accept s (shd (accept_results ?wk)) # X =
        session_events s (accept_results ?wk) (stream_results ?wk) (Suc 0) @ drop 3 X"
    using server_loop_next_session [of m s ?wk] by blast
  have e1: "events (snd (server_loop fuel s w)) =
      (events w @ session_events s (accept_results w) (stream_results w) k @
        [Accept s (accept_results w !! k)]) @ X"
    by (simp only: run X events_after_sessions c) simp
  show "prefix (events w @ session_events s (accept_results w) (stream_results w) k @
                  [Accept s (accept_results w !! k)])
           (events (snd (serve_connections fuel s w)))"
    using prefixI [OF e1] serve_connections_extends [of fuel s w]
    by (rule prefix_order.order_trans)
  assume pos: "0 \<le> accept_results w !! k"
  have sk: "session_events s (accept_results w) (stream_results w) (Suc k) =
      session_events s (accept_results w) (stream_results w) k @
      session_events s (accept_results ?wk) (stream_results ?wk) (Suc 0)"
    using session_events_append [of s "accept_results w" "stream_results w" k "Suc 0"]
    by (simp add: after_sessions_def del: session_events.simps)
  have e2: "events (snd (server_loop fuel s w)) =
      (events w @ session_events s (accept_results w) (stream_results w) (Suc k)) @ drop 3 X"
    using S pos c by (simp only: run X events_after_sessions sk) simp
  show "prefix (events w @ session_events s (accept_results w) (stream_results w) (Suc k))
           (events (snd (serve_connections fuel s w)))"
    using prefixI [OF e2] serve_connections_extends [of fuel s w]
    by (rule prefix_order.order_trans)
qed

lemma serve_connections_left:
  assumes ok: "\<forall>j<k. 0 \<le> accept_results w !! j \<and> stream_results w !! j = 0"
    and last: "0 \<le> accept_results w !! k" "stream_results w !! k \<noteq> 0"
    and fuel: "k < fuel"
  shows "serve_connections fuel s w =
     (Some 0,
      emit (Fprintf_stderr ''Last gcode_machine_control_from_stream() == %d. Exiting''
              [stream_results w !! k])
        (emit (Close s) (after_sessions s (Suc k) w)))"
proof -
  let ?wk = "after_sessions s k w"
  obtain m where m: "fuel = k + Suc m"
    using fuel by (auto dest: less_imp_Suc_add)
  have run: "server_loop fuel s w = server_loop (Suc m) s ?wk"
    unfolding m using ok by (rule server_loop_running)
  have c: "\<not> shd (accept_results ?wk) < 0" "shd (stream_results ?wk) \<noteq> 0"
    "shd (stream_results ?wk) = stream_results w !! k"
    using last by (simp_all add: after_sessions_def)
  have "server_loop (Suc m) s ?wk =
      (Some (Left_loop (stream_results w !! k)), after_sessions s (Suc 0) ?wk)"
    using c by (simp only: server_loop_step) simp
  then have "server_loop fuel s w =
      (Some (Left_loop (stream_results w !! k)), after_sessions s (Suc k) w)"
    by (simp only: run after_sessions_add) simp
  then show ?thesis
    by (simp add: serve_connections_def)
qed


lemma one_at_a_time_rejects_overlap:
  "\<not> one_at_a_time None [Accept 3 4, Accept 3 5, From_stream 4 4 0, From_stream 5 5 0]"
  by simp

text \<open>
  C6. In the network service loop at most one connection is being served at any time:
  the events of the loop, for every world and however long it runs, are
  \<open>one_at_a_time\<close>. After \<open>k\<close> sessions that ended with engine result 0 the loop is in
  \<^verbatim>\<open>accept\<close> again, and when that \<^verbatim>\<open>accept\<close> succeeds the further connection is served.
  After a session that ends with a non-zero result the only events are \<^verbatim>\<open>close(s)\<close> on
  the listening socket and the log line, and the function has returned: no further
  \<^verbatim>\<open>accept\<close> occurs.
\<close>

theorem serve_connections_serial:
  "one_at_a_time None (new_events w (snd (serve_connections fuel s w))) \<and>
   ((\<forall>j<k. 0 \<le> accept_results w !! j \<and> stream_results w !! j = 0) \<and> k < fuel \<longrightarrow>
      prefix (events w @ session_events s (accept_results w) (stream_results w) k @
                [Accept s (accept_results w !! k)])
        (events (snd (serve_connections fuel s w))) \<and>
      (0 \<le> accept_results w !! k \<longrightarrow>
         prefix (events w @ session_events s (accept_results w) (stream_results w) (Suc k))
           (events (snd (serve_connections fuel s w))))) \<and>
   ((\<forall>j<k. 0 \<le> accept_results w !! j \<and> stream_results w !! j = 0) \<and>
    0 \<le> accept_results w !! k \<and> stream_results w !! k \<noteq> 0 \<and> k < fuel \<longrightarrow>
      serve_connections fuel s w =
        (Some 0,
         emit (Fprintf_stderr ''Last gcode_machine_control_from_stream() == %d. Exiting''
                 [stream_results w !! k])
           (emit (Close s) (after_sessions s (Suc k) w))))"
proof (intro conjI impI)
  obtain X where X: "events (snd (serve_connections fuel s w)) = events w @ X"
      "one_at_a_time None X"
    using serve_connections_events by blast
  then show "one_at_a_time None (new_events w (snd (serve_connections fuel s w)))"
    by (simp add: new_events_def)
next
  assume h: "(\<forall>j<k. 0 \<le> accept_results w !! j \<and> stream_results w !! j = 0) \<and> k < fuel"
  then show "prefix (events w @ session_events s (accept_results w) (stream_results w) k @
                [Accept s (accept_results w !! k)])
        (events (snd (serve_connections fuel s w)))"
    by (intro serve_connections_next_session(1)) simp_all
next
  assume h: "(\<forall>j<k. 0 \<le> accept_results w !! j \<and> stream_results w !! j = 0) \<and> k < fuel"
    and pos: "0 \<le> accept_results w !! k"
  from h have ok: "\<forall>j<k. 0 \<le> accept_results w !! j \<and> stream_results w !! j = 0"
    and fuel: "k < fuel" by simp_all
  show "prefix (events w @ session_events s (accept_results w) (stream_results w) (Suc k))
           (events (snd (serve_connections fuel s w)))"
    using ok fuel pos by (rule serve_connections_next_session(2))
next
  assume h: "(\<forall>j<k. 0 \<le> accept_results w !! j \<and> stream_results w !! j = 0) \<and>
    0 \<le> accept_results w !! k \<and> stream_results w !! k \<noteq> 0 \<and> k < fuel"
  then show "serve_connections fuel s w =
        (Some 0,
         emit (Fprintf_stderr ''Last gcode_machine_control_from_stream() == %d. Exiting''
                 [stream_results w !! k])
           (emit (Close s) (after_sessions s (Suc k) w)))"
    by (intro serve_connections_left) simp_all
qed


theorem serve_connections_serial_witness:
  "0 \<le> accept_results (world_of (sconst 9) (0 ## 7 ## sconst 0) (4 ## 5 ## sconst 6)) !! 0 \<and>
   stream_results (world_of (sconst 9) (0 ## 7 ## sconst 0) (4 ## 5 ## sconst 6)) !! 0 = 0 \<and>
   0 \<le> accept_results (world_of (sconst 9) (0 ## 7 ## sconst 0) (4 ## 5 ## sconst 6)) !! 1 \<and>
   stream_results (world_of (sconst 9) (0 ## 7 ## sconst 0) (4 ## 5 ## sconst 6)) !! 1 \<noteq> 0 \<and>
   (1::nat) < 5 \<and>
   fst (serve_connections 5 3 (world_of (sconst 9) (0 ## 7 ## sconst 0) (4 ## 5 ## sconst 6))) =
     Some 0 \<and>
   events (snd (serve_connections 5 3
       (world_of (sconst 9) (0 ## 7 ## sconst 0) (4 ## 5 ## sconst 6)))) =
     [Accept 3 4, Printf ''Accepting new connection from %s'', From_stream 4 4 0,
      Printf ''Connection to %s closed.'',
      Accept 3 5, Printf ''Accepting new connection from %s'', From_stream 5 5 7,
      Printf ''Connection to %s closed.'',
      Close 3,
      Fprintf_stderr ''Last gcode_machine_control_from_stream() == %d. Exiting'' [7]] \<and>
   one_at_a_time None (events (snd (serve_connections 5 3
       (world_of (sconst 9) (0 ## 7 ## sconst 0) (4 ## 5 ## sconst 6)))))"
proof -
  let ?w = "world_of (sconst 9) (0 ## 7 ## sconst 0) (4 ## 5 ## sconst 6)"
  note inst = serve_connections_serial [where w = ?w and fuel = 5 and s = 3 and k = 1]
  have a0: "0 \<le> accept_results ?w !! 0" and r0: "stream_results ?w !! 0 = 0"
    and a1: "0 \<le> accept_results ?w !! 1" and r1: "stream_results ?w !! 1 \<noteq> 0"
    and lt: "(1::nat) < 5"
    by (simp_all add: world_of_def)
  have h: "(\<forall>j<1. 0 \<le> accept_results ?w !! j \<and> stream_results ?w !! j = 0) \<and>
      0 \<le> accept_results ?w !! 1 \<and> stream_results ?w !! 1 \<noteq> 0 \<and> (1::nat) < 5"
    using a0 r0 a1 r1 by simp
  have eq: "serve_connections 5 3 ?w =
      (Some 0,
       emit (Fprintf_stderr ''Last gcode_machine_control_from_stream() == %d. Exiting''
               [stream_results ?w !! 1])
         (emit (Close 3) (after_sessions 3 (Suc 1) ?w)))"
    using inst h by blast
  have f: "fst (serve_connections 5 3 ?w) = Some 0"
    by (simp only: eq fst_conv)
  have e: "events (snd (serve_connections 5 3 ?w)) =
     [Accept 3 4, Printf ''Accepting new connection from %s'', From_stream 4 4 0,
      Printf ''Connection to %s closed.'',
      Accept 3 5, Printf ''Accepting new connection from %s'', From_stream 5 5 7,
      Printf ''Connection to %s closed.'',
      Close 3,
      Fprintf_stderr ''Last gcode_machine_control_from_stream() == %d. Exiting'' [7]]"
    unfolding eq snd_conv by (simp add: emit_def after_sessions_def world_of_def)
  have "one_at_a_time None (new_events ?w (snd (serve_connections 5 3 ?w)))"
    using inst by blast
  moreover have "new_events ?w (snd (serve_connections 5 3 ?w)) =
      events (snd (serve_connections 5 3 ?w))"
    by (simp add: new_events_def world_of_def)
  ultimately have o: "one_at_a_time None (events (snd (serve_connections 5 3 ?w)))"
    by simp
  show ?thesis
    by (intro conjI; fact)
qed

section \<open>Properties of \<^verbatim>\<open>main\<close>\<close>

lemmas run_defs =
  main_def main_exit_def usage_def run_server_def serve_connections_def
  gcode_machine_control_init_def gcode_machine_control_from_stream_def c_open_def
  c_accept_def emit_def world_of_def initial_flags_def STDERR_FILENO_def

text \<open>
  C1. The claim: in network mode a non-zero result of the engine ends the serving loop
  and is propagated as the outcome of the process, exit code 1. The loop does end, but
  \<^verbatim>\<open>run_server\<close> then returns 0 (line 175), and \<^verbatim>\<open>main\<close> returns that value. With
  \<^verbatim>\<open>--port 8080\<close>, a first connection 4 and the engine result 7 for it, the exit code
  is 0. \<^verbatim>\<open>send_file_to_machine\<close> returns 1 for the same engine failure.
\<close>

theorem run_server_engine_failure_exit_code:
  "fst (main (libc 7) 2 [Opt_p ''8080''] [] (world_of (sconst 9) (7 ## sconst 0) (4 ## sconst 5))) =
     Some 0 \<and>
   From_stream 4 4 7 \<in> set (events (snd (main (libc 7) 2 [Opt_p ''8080''] []
       (world_of (sconst 9) (7 ## sconst 0) (4 ## sconst 5)))))"
proof -
  have p: "atoi_decimal ''8080'' = 8080"
    by (simp add: scan_defs)
  show ?thesis
    by (simp add: run_defs libc_sel p Let_def numeral_2_eq_2)
qed

text \<open>
  C4. The claim: in file mode a failure to open the command file is reported with the
  text of the OS error and the process exits with code 1 without handing a stream to the
  engine. \<^verbatim>\<open>send_file_to_machine\<close> does not look at the result of \<^verbatim>\<open>open\<close> (lines 113 and
  114): with a file that cannot be opened the descriptor \<open>-1\<close> goes to the engine, nothing
  is reported by \<^verbatim>\<open>machine-control.c\<close>, and the exit code is the one the engine's answer
  produces: 0 when the engine answers 0, 1 when it answers 1. \<^verbatim>\<open>run_server\<close> does test \<^verbatim>\<open>socket\<close>, \<^verbatim>\<open>bind\<close> and \<^verbatim>\<open>accept\<close>, with
  \<^verbatim>\<open>perror\<close> and \<^verbatim>\<open>return 1\<close>.
\<close>

theorem send_file_open_failure_not_checked:
  "main (libc 7) 1 [] [''missing.gcode''] (world_of (sconst (- 1)) (sconst 0) (sconst 4)) =
     (Some 0,
      (world_of (sconst (- 1)) (sconst 0) (sconst 4))
        \<lparr>events := [Engine_init (default_config (libc 7)), Open ''missing.gcode'' (- 1),
                    From_stream (- 1) 2 0, Engine_exit]\<rparr>) \<and>
   main (libc 7) 1 [] [''missing.gcode''] (world_of (sconst (- 1)) (sconst 1) (sconst 4)) =
     (Some 1,
      (world_of (sconst (- 1)) (sconst 1) (sconst 4))
        \<lparr>events := [Engine_init (default_config (libc 7)), Open ''missing.gcode'' (- 1),
                    From_stream (- 1) 2 1, Engine_exit]\<rparr>)"
  by (simp add: run_defs Let_def)

text \<open>
  The four \<^verbatim>\<open>float\<close> arrays keep, at every position that no flag supplied, the value
  they had before the flags were processed: the compiled-in default.
\<close>

lemma handle_option_keeps_unsupplied:
  assumes "handle_option p opt fs = Inr fs'"
    and "\<And>optarg. float_override opt = Some (f, optarg) \<Longrightarrow> tokens_supplied p optarg \<le> j"
  shows "field_of f (config fs') ! j = field_of f (config fs) ! j"
proof -
  have keep: "a ! j = field_of f (config fs) ! j"
    if "parse_float_array p optarg (field_of f (config fs)) (int (GCODE_NUM_AXES p)) = (n, a)"
      and "n \<noteq> 0" and "float_override opt = Some (f, optarg)" for optarg n a
    using parse_float_array_untouched [OF that(1) _ that(2)]
      parse_float_array_count [of p optarg "field_of f (config fs)"] assms(2) [OF that(3)]
      that(1)
    by simp
  show ?thesis
    using assms(1) keep
    by (cases opt; cases f) (auto simp: Let_def split: prod.splits if_splits)
qed

lemma process_flags_keeps_unsupplied:
  "process_flags p opts fs = Inr fs' \<Longrightarrow> \<not> supplied p opts f j \<Longrightarrow>
   field_of f (config fs') ! j = field_of f (config fs) ! j"
proof (induction opts arbitrary: fs)
  case Nil
  then show ?case by simp
next
  case (Cons opt opts)
  then obtain fs1 where h: "handle_option p opt fs = Inr fs1"
    and r: "process_flags p opts fs1 = Inr fs'"
    by (auto split: sum.splits)
  have n1: "\<And>optarg. float_override opt = Some (f, optarg) \<Longrightarrow> tokens_supplied p optarg \<le> j"
    using Cons.prems(2) by (force simp: supplied_def)
  have n2: "\<not> supplied p opts f j"
    using Cons.prems(2) by (simp add: supplied_def)
  show ?case
    using Cons.IH [OF r n2] handle_option_keeps_unsupplied [OF h n1] by simp
qed

text \<open>
  C2. The claim: after successful flag processing every position of a per-axis array that
  no flag supplied holds its compiled-in default, for \<^verbatim>\<open>home_switch\<close> as for the four
  \<^verbatim>\<open>float\<close> arrays. The \<^verbatim>\<open>--home-pos\<close> case parses into a zeroed temporary array and then
  copies all \<^verbatim>\<open>GCODE_NUM_AXES\<close> elements (lines 257 to 262): with \<^verbatim>\<open>--home-pos 2\<close> the
  positions 1 and 2, which the flag did not supply, change from \<open>HOME_POS_ORIGIN\<close> to
  \<open>HOME_POS_NONE\<close>. The cases of the four \<^verbatim>\<open>float\<close> arrays parse in place and keep the
  defaults, as \<open>process_flags_keeps_unsupplied\<close> shows.
\<close>

theorem home_pos_partial_list_resets_defaults:
  "map_sum id (\<lambda>fs. home_switch (config fs))
     (process_flags (libc 7) [SET_HOME_POS ''2''] (initial_flags (libc 7))) =
     Inr [2, 0, 0, 0, 0, 0, 0] \<and>
   home_switch (default_config (libc 7)) = [1, 1, 1, 0, 0, 0, 0]"
proof -
  have s: "strtod_decimal ''2'' = (2, 1)"
    by (simp add: scan_defs)
  have pa: "parse_float_array (libc 7) ''2'' (replicate 7 0) 7 = (1, [2, 0, 0, 0, 0, 0, 0])"
    by (simp add: parse_float_array_def parse_float_array_loop.simps libc_sel s
        numeral_eq_Suc)
  have u: "[0 ..< 7] = [0, 1, 2, 3, 4, 5, 6]"
    by (simp add: upt_rec)
  show ?thesis
    by (simp add: initial_flags_def default_config_def c_array_def kHomePos_def
      HOME_POS_ORIGIN_def HOME_POS_NONE_def libc_sel pa u float_to_HomeType_def)
qed

lemma handle_option_listen_port:
  "handle_option p opt fs = Inr fs' \<Longrightarrow>
   listen_port fs' = (case opt of Opt_p a \<Rightarrow> atoi p a | _ \<Rightarrow> listen_port fs)"
  by (cases opt) (auto simp: Let_def split: prod.splits if_splits)

lemma handle_option_do_file_repeat:
  "handle_option p opt fs = Inr fs' \<Longrightarrow>
   do_file_repeat fs' = (do_file_repeat fs \<or> opt = Opt_R)"
  by (cases opt) (auto simp: Let_def split: prod.splits if_splits)

lemma process_flags_listen_port:
  "process_flags p opts fs = Inr fs' \<Longrightarrow>
   listen_port fs' =
     (if port_args opts = [] then listen_port fs else atoi p (last (port_args opts)))"
proof (induction opts arbitrary: fs)
  case Nil
  then show ?case by simp
next
  case (Cons opt opts)
  then obtain fs1 where h: "handle_option p opt fs = Inr fs1"
    and r: "process_flags p opts fs1 = Inr fs'"
    by (auto split: sum.splits)
  show ?case
    using Cons.IH [OF r] handle_option_listen_port [OF h]
    by (cases opt) simp_all
qed

lemma process_flags_do_file_repeat:
  "process_flags p opts fs = Inr fs' \<Longrightarrow>
   do_file_repeat fs' = (do_file_repeat fs \<or> Opt_R \<in> set opts)"
proof (induction opts arbitrary: fs)
  case Nil
  then show ?case by simp
next
  case (Cons opt opts)
  then obtain fs1 where h: "handle_option p opt fs = Inr fs1"
    and r: "process_flags p opts fs1 = Inr fs'"
    by (auto split: sum.splits)
  show ?case
    using Cons.IH [OF r] handle_option_do_file_repeat [OF h] by auto
qed

lemma handle_option_set_listen_port:
  "port_args [opt] = [] \<Longrightarrow>
   handle_option p opt (fs\<lparr>listen_port := x\<rparr>) =
   map_sum id (\<lambda>f. f\<lparr>listen_port := x\<rparr>) (handle_option p opt fs)"
  by (cases opt) (simp_all add: Let_def split: prod.splits)

lemma process_flags_set_listen_port:
  "port_args opts = [] \<Longrightarrow>
   process_flags p opts (fs\<lparr>listen_port := x\<rparr>) =
   map_sum id (\<lambda>f. f\<lparr>listen_port := x\<rparr>) (process_flags p opts fs)"
proof (induction opts arbitrary: fs)
  case Nil
  then show ?case by simp
next
  case (Cons opt opts)
  have a: "port_args [opt] = []" and b: "port_args opts = []"
    using Cons.prems by (cases opt; simp)+
  show ?case
    using Cons.IH [OF b] handle_option_set_listen_port [OF a, where p = p and fs = fs and x = x]
    by (cases "handle_option p opt fs") simp_all
qed

lemma port_args_without_port: "port_args (without_port opts) = []"
  by (induction opts rule: without_port.induct) simp_all


lemma process_flags_without_port:
  "process_flags p opts fs = Inr fs' \<Longrightarrow>
   process_flags p (without_port opts) fs = Inr (fs'\<lparr>listen_port := listen_port fs\<rparr>)"
proof (induction opts arbitrary: fs)
  case Nil
  then show ?case by simp
next
  case (Cons opt opts)
  then obtain fs1 where h: "handle_option p opt fs = Inr fs1"
    and r: "process_flags p opts fs1 = Inr fs'"
    by (auto split: sum.splits)
  note ih = Cons.IH [OF r]
  show ?case
  proof (cases "\<exists>a. opt = Opt_p a")
    case True
    then obtain a where a: "opt = Opt_p a" by blast
    then have fs1: "fs1 = fs\<lparr>listen_port := atoi p a\<rparr>"
      using h by simp
    have "process_flags p (without_port opts) fs1 =
        map_sum id (\<lambda>f. f\<lparr>listen_port := atoi p a\<rparr>)
          (process_flags p (without_port opts) fs)"
      unfolding fs1 by (rule process_flags_set_listen_port) (rule port_args_without_port)
    with ih obtain g where g: "process_flags p (without_port opts) fs = Inr g"
      and e: "g\<lparr>listen_port := atoi p a\<rparr> = fs'\<lparr>listen_port := listen_port fs1\<rparr>"
      by (cases "process_flags p (without_port opts) fs") simp_all
    have "listen_port g = listen_port fs"
      using process_flags_listen_port [OF g] by (simp add: port_args_without_port)
    then have "g = (g\<lparr>listen_port := atoi p a\<rparr>)\<lparr>listen_port := listen_port fs\<rparr>"
      by simp
    also have "\<dots> = fs'\<lparr>listen_port := listen_port fs\<rparr>"
      unfolding e by simp
    finally show ?thesis
      using a g by simp
  next
    case False
    then have w: "without_port (opt # opts) = opt # without_port opts"
      by (cases opt) simp_all
    have "listen_port fs1 = listen_port fs"
      using handle_option_listen_port [OF h] False by (cases opt) simp_all
    then show ?thesis
      using ih h by (simp add: w)
  qed
qed

lemma send_file_to_machine_extends:
  "prefix (events w) (events (snd (send_file_to_machine fuel fn do_loop w)))"
proof (induction fuel arbitrary: w)
  case 0
  show ?case by simp
next
  case (Suc fuel)
  have "prefix (events w) (events (after_playback fn (Suc 0) w))"
    by (simp add: after_playback_def)
  then show ?case
    using Suc.IH [of "after_playback fn (Suc 0) w"]
    by (auto simp: send_file_step simp del: send_file_to_machine.simps
        intro: prefix_order.order_trans)
qed

lemma run_server_extends:
  "prefix (events w) (events (snd (run_server fuel addr port w)))"
proof -
  have "\<And>w'. prefix (events w) (events w') \<Longrightarrow>
      prefix (events w) (events (snd (serve_connections fuel s w')))" for s
    using serve_connections_events prefix_order.order_trans by (metis prefixI)
  then show ?thesis
    by (simp add: run_server_def emit_def Let_def split: option.splits)
qed

lemma main_exit_extends:
  "prefix (events w) (events (snd rw)) \<Longrightarrow> prefix (events w) (events (snd (main_exit rw)))"
  by (cases rw) (auto simp: main_exit_def emit_def split: option.splits
      intro: prefix_order.order_trans)


lemma process_flags_port_present:
  "process_flags p opts (initial_flags p) = Inr fs \<Longrightarrow>
   (0 < listen_port fs) = port_present p opts"
  using process_flags_listen_port [of p opts "initial_flags p" fs]
  by (simp add: port_present_def initial_flags_def)

lemma process_flags_repeat:
  "process_flags p opts (initial_flags p) = Inr fs \<Longrightarrow>
   do_file_repeat fs = (Opt_R \<in> set opts)"
  using process_flags_do_file_repeat [of p opts "initial_flags p" fs]
  by (simp add: initial_flags_def)

lemma main_dispatch:
  "process_flags p opts (initial_flags p) = Inr fs \<Longrightarrow>
   main p fuel opts args w =
     (if (args \<noteq> []) = port_present p opts
      then (Some 1, emit (Usage ''Choose one: <gcode-filename> or --port <port>.'') w)
      else if args = [] \<and> Opt_R \<in> set opts
      then (Some 1, emit (Usage ''-R (repeat) only makes sense with a filename.'') w)
      else if init_result w \<noteq> 0 then (Some 1, emit (Engine_init (config fs)) w)
      else if args \<noteq> []
      then main_exit (send_file_to_machine fuel (hd args) (do_file_repeat fs)
             (emit (Engine_init (config fs)) w))
      else main_exit (run_server fuel (bind_addr fs) (listen_port fs)
             (emit (Engine_init (config fs)) w)))"
  using process_flags_port_present [of p opts fs] process_flags_repeat [of p opts fs]
  by (simp add: main_def usage_def gcode_machine_control_init_def Let_def)

text \<open>
  C5. After the flags have been parsed, the mode is chosen by an exclusive or of "a
  trailing filename is present" and "a listen port is present": when both or neither are
  present \<^verbatim>\<open>main\<close> prints the choose-one usage error and exits with code 1; the repeat
  flag without a filename is a usage error with exit code 1 as well; and when exactly one
  is present (and repeat has its filename) there is no usage error: the next thing
  \<^verbatim>\<open>main\<close> does is to initialise the engine with the configuration.
\<close>

theorem main_mode_selection:
  assumes "process_flags p opts (initial_flags p) = Inr fs"
  shows "((args \<noteq> []) = port_present p opts \<longrightarrow>
            main p fuel opts args w =
              (Some 1, emit (Usage ''Choose one: <gcode-filename> or --port <port>.'') w)) \<and>
         (args = [] \<and> Opt_R \<in> set opts \<longrightarrow>
            (\<exists>msg. main p fuel opts args w = (Some 1, emit (Usage msg) w))) \<and>
         ((args \<noteq> []) \<noteq> port_present p opts \<and> \<not> (args = [] \<and> Opt_R \<in> set opts) \<longrightarrow>
            prefix (events w @ [Engine_init (config fs)])
              (events (snd (main p fuel opts args w))))"
proof (intro conjI impI)
  assume "(args \<noteq> []) = port_present p opts"
  then show "main p fuel opts args w =
      (Some 1, emit (Usage ''Choose one: <gcode-filename> or --port <port>.'') w)"
    by (simp add: main_dispatch [OF assms])
next
  assume "args = [] \<and> Opt_R \<in> set opts"
  then show "\<exists>msg. main p fuel opts args w = (Some 1, emit (Usage msg) w)"
    by (cases "port_present p opts") (simp_all add: main_dispatch [OF assms], blast+)
next
  let ?w1 = "emit (Engine_init (config fs)) w"
  assume h: "(args \<noteq> []) \<noteq> port_present p opts \<and> \<not> (args = [] \<and> Opt_R \<in> set opts)"
  have e: "events ?w1 = events w @ [Engine_init (config fs)]"
    by (simp add: emit_def)
  have "prefix (events ?w1) (events (snd (main p fuel opts args w)))"
    using h main_exit_extends [OF send_file_to_machine_extends]
      main_exit_extends [OF run_server_extends]
    by (simp add: main_dispatch [OF assms])
  then show "prefix (events w @ [Engine_init (config fs)])
      (events (snd (main p fuel opts args w)))"
    by (simp only: e)
qed

theorem main_mode_selection_witness:
  "process_flags (libc 7) [Opt_p ''8080''] (initial_flags (libc 7)) =
     Inr ((initial_flags (libc 7))\<lparr>listen_port := 8080\<rparr>) \<and>
   port_present (libc 7) [Opt_p ''8080''] \<and>
   main (libc 7) 1 [Opt_p ''8080''] [''a.gcode''] (world_of (sconst 9) (sconst 0) (sconst 4)) =
     (Some 1, emit (Usage ''Choose one: <gcode-filename> or --port <port>.'')
        (world_of (sconst 9) (sconst 0) (sconst 4))) \<and>
   main (libc 7) 1 [] [] (world_of (sconst 9) (sconst 0) (sconst 4)) =
     (Some 1, emit (Usage ''Choose one: <gcode-filename> or --port <port>.'')
        (world_of (sconst 9) (sconst 0) (sconst 4))) \<and>
   fst (main (libc 7) 1 [Opt_R, Opt_p ''8080''] [] (world_of (sconst 9) (sconst 0) (sconst 4))) =
     Some 1 \<and>
   prefix [Engine_init (default_config (libc 7))]
     (events (snd (main (libc 7) 1 [Opt_p ''8080''] []
        (world_of (sconst 9) (sconst 0) (sconst 4)))))"
proof -
  let ?w = "world_of (sconst 9) (sconst 0) (sconst 4)"
  let ?p = "libc 7"
  let ?fs = "(initial_flags ?p)\<lparr>listen_port := 8080\<rparr>"
  have a: "atoi_decimal ''8080'' = 8080"
    by (simp add: scan_defs)
  have h1: "process_flags ?p [Opt_p ''8080''] (initial_flags ?p) = Inr ?fs"
    by (simp add: libc_sel a)
  have h2: "process_flags ?p [] (initial_flags ?p) = Inr (initial_flags ?p)"
    by simp
  have h3: "process_flags ?p [Opt_R, Opt_p ''8080''] (initial_flags ?p) =
      Inr (?fs\<lparr>do_file_repeat := True\<rparr>)"
    by (simp add: libc_sel a)
  have pp: "port_present ?p [Opt_p ''8080'']"
    by (simp add: port_present_def libc_sel a)
  have np: "\<not> port_present ?p []"
    by (simp add: port_present_def)
  have c1: "main ?p 1 [Opt_p ''8080''] [''a.gcode''] ?w =
      (Some 1, emit (Usage ''Choose one: <gcode-filename> or --port <port>.'') ?w)"
    using main_mode_selection [OF h1, where args = "[''a.gcode'']" and w = ?w and fuel = 1] pp
    by simp
  have c2: "main ?p 1 [] [] ?w =
      (Some 1, emit (Usage ''Choose one: <gcode-filename> or --port <port>.'') ?w)"
    using main_mode_selection [OF h2, where args = "[]" and w = ?w and fuel = 1] np
    by simp
  have c3: "fst (main ?p 1 [Opt_R, Opt_p ''8080''] [] ?w) = Some 1"
    using main_mode_selection [OF h3, where args = "[]" and w = ?w and fuel = 1]
    by auto
  have "prefix (events ?w @ [Engine_init (config ?fs)])
      (events (snd (main ?p 1 [Opt_p ''8080''] [] ?w)))"
    using main_mode_selection [OF h1, where args = "[]" and w = ?w and fuel = 1] pp
    by simp
  then have c4: "prefix [Engine_init (default_config ?p)]
      (events (snd (main ?p 1 [Opt_p ''8080''] [] ?w)))"
    by (simp add: initial_flags_def world_of_def)
  show ?thesis
    by (intro conjI; fact)
qed

text \<open>
  C10. When the \<^verbatim>\<open>--port\<close> argument that \<^verbatim>\<open>listen_port\<close> keeps converts to a number that is
  not strictly positive, \<^verbatim>\<open>main\<close> behaves as if no port had been given at all: with a
  trailing filename it runs in file mode without any message about the port, and
  without one it prints the choose-one usage error.
\<close>

theorem main_nonpositive_port:
  assumes "process_flags p opts (initial_flags p) = Inr fs"
    and "port_args opts \<noteq> []" and "atoi p (last (port_args opts)) \<le> 0"
  shows "main p fuel opts args w = main p fuel (without_port opts) args w \<and>
         (args = [] \<longrightarrow>
            main p fuel opts args w =
              (Some 1, emit (Usage ''Choose one: <gcode-filename> or --port <port>.'') w)) \<and>
         (args \<noteq> [] \<longrightarrow>
            main p fuel opts args w =
              (if init_result w \<noteq> 0 then (Some 1, emit (Engine_init (config fs)) w)
               else main_exit (send_file_to_machine fuel (hd args) (do_file_repeat fs)
                      (emit (Engine_init (config fs)) w))))"
proof -
  let ?fs0 = "fs\<lparr>listen_port := listen_port (initial_flags p)\<rparr>"
  have np: "\<not> port_present p opts"
    using assms(3) by (simp add: port_present_def)
  have f0: "process_flags p (without_port opts) (initial_flags p) = Inr ?fs0"
    using assms(1) by (rule process_flags_without_port)
  have np0: "\<not> port_present p (without_port opts)"
    by (simp add: port_present_def port_args_without_port)
  have r: "(Opt_R \<in> set (without_port opts)) = (Opt_R \<in> set opts)"
    using process_flags_repeat [OF f0] process_flags_repeat [OF assms(1)] by simp
  have "main p fuel opts args w = main p fuel (without_port opts) args w"
    using np np0 r by (simp add: main_dispatch [OF assms(1)] main_dispatch [OF f0])
  moreover have "args = [] \<longrightarrow> main p fuel opts args w =
      (Some 1, emit (Usage ''Choose one: <gcode-filename> or --port <port>.'') w)"
    using np by (simp add: main_dispatch [OF assms(1)])
  moreover have "args \<noteq> [] \<longrightarrow> main p fuel opts args w =
      (if init_result w \<noteq> 0 then (Some 1, emit (Engine_init (config fs)) w)
       else main_exit (send_file_to_machine fuel (hd args) (do_file_repeat fs)
              (emit (Engine_init (config fs)) w)))"
    using np by (simp add: main_dispatch [OF assms(1)])
  ultimately show ?thesis by blast
qed

theorem main_nonpositive_port_witness:
  "process_flags (libc 7) [Opt_p ''0''] (initial_flags (libc 7)) =
     Inr ((initial_flags (libc 7))\<lparr>listen_port := 0\<rparr>) \<and>
   port_args [Opt_p ''0''] \<noteq> [] \<and>
   atoi (libc 7) (last (port_args [Opt_p ''0''])) \<le> 0 \<and>
   main (libc 7) 1 [Opt_p ''0''] [''a.gcode''] (world_of (sconst 9) (sconst 0) (sconst 4)) =
     main (libc 7) 1 [] [''a.gcode''] (world_of (sconst 9) (sconst 0) (sconst 4)) \<and>
   events (snd (main (libc 7) 1 [Opt_p ''0''] [''a.gcode'']
       (world_of (sconst 9) (sconst 0) (sconst 4)))) =
     [Engine_init (default_config (libc 7)), Open ''a.gcode'' 9, From_stream 9 2 0,
      Engine_exit] \<and>
   main (libc 7) 1 [Opt_p ''0''] [] (world_of (sconst 9) (sconst 0) (sconst 4)) =
     (Some 1, emit (Usage ''Choose one: <gcode-filename> or --port <port>.'')
        (world_of (sconst 9) (sconst 0) (sconst 4)))"
proof -
  let ?w = "world_of (sconst 9) (sconst 0) (sconst 4)"
  let ?p = "libc 7"
  let ?fs = "(initial_flags ?p)\<lparr>listen_port := 0\<rparr>"
  have a: "atoi_decimal ''0'' = 0"
    by (simp add: scan_defs)
  have h1: "process_flags ?p [Opt_p ''0''] (initial_flags ?p) = Inr ?fs"
    by (simp add: libc_sel a)
  have h2: "port_args [Opt_p ''0''] \<noteq> []"
    by simp
  have h3: "atoi ?p (last (port_args [Opt_p ''0''])) \<le> 0"
    by (simp add: libc_sel a)
  note inst = main_nonpositive_port [OF h1 h2 h3, where w = ?w and fuel = 1]
  have c1: "main ?p 1 [Opt_p ''0''] [''a.gcode''] ?w = main ?p 1 [] [''a.gcode''] ?w"
    using inst [where args = "[''a.gcode'']", THEN conjunct1] by simp
  have c2: "events (snd (main ?p 1 [Opt_p ''0''] [''a.gcode''] ?w)) =
     [Engine_init (default_config ?p), Open ''a.gcode'' 9, From_stream 9 2 0, Engine_exit]"
    using inst [where args = "[''a.gcode'']", THEN conjunct2, THEN conjunct2]
    by (simp add: main_exit_def c_open_def gcode_machine_control_from_stream_def emit_def
        world_of_def initial_flags_def STDERR_FILENO_def Let_def)
  have c3: "main ?p 1 [Opt_p ''0''] [] ?w =
      (Some 1, emit (Usage ''Choose one: <gcode-filename> or --port <port>.'') ?w)"
    using inst [where args = "[]", THEN conjunct2, THEN conjunct1] by simp
  show ?thesis
    by (intro conjI; fact)
qed

end
